theory Spec2Isabelle
  imports Complex_Main
begin

section \<open>Data model of the deposit-session hook\<close>

text \<open>
  The development embeds \<^verbatim>\<open>src/hooks/deposit/useDepositSession.ts\<close> (the hook
  \<^verbatim>\<open>useDepositSession\<close>), the two pure helpers of
  \<^verbatim>\<open>components/depositComponents\<close> (\<^verbatim>\<open>formatTime\<close>,
  \<^verbatim>\<open>getStatusMessage\<close>) and as much of React's hook runtime as the hook relies on:
  state cells, effects with dependency lists and cleanups, and interval timers whose
  callbacks close over the render that created them. The component \<^verbatim>\<open>QRDeposit\<close>
  carries a copy of the same cells, the same three effects and the same interval
  callbacks, so the effect bodies and callbacks below are the text of both; its further
  handlers are not part of the model.

  JavaScript numbers that only ever hold integers (\<^verbatim>\<open>timeLeft\<close>,
  \<^verbatim>\<open>completionCountdown\<close>) are \<^typ>\<open>int\<close>; \<^verbatim>\<open>progressPercentage\<close>, which the
  completion countdown sets to a fraction, is \<^typ>\<open>rat\<close>. \<^verbatim>\<open>null\<close> is
  \<^const>\<open>None\<close>.
\<close>

text \<open>
  Modelled from the spec: \<^verbatim>\<open>TransactionStatus\<close> is declared in \<^verbatim>\<open>src/types\<close>, which
  is not among the sources. The spec names the chain
  DETECTED, PROCESSING, CONFIRMING, CONFIRMED, COMPLETED; these are also exactly the string
  literals the hook's \<^verbatim>\<open>switch\<close> distinguishes. \<open>TxStatus\<close> is that declared
  enumeration and \<open>statusName\<close> the string each member is at run time.
\<close>

datatype TxStatus = DETECTED | PROCESSING | CONFIRMING | CONFIRMED | COMPLETED

fun statusName :: "TxStatus \<Rightarrow> string" where
  "statusName DETECTED = ''DETECTED''"
| "statusName PROCESSING = ''PROCESSING''"
| "statusName CONFIRMING = ''CONFIRMING''"
| "statusName CONFIRMED = ''CONFIRMED''"
| "statusName COMPLETED = ''COMPLETED''"

text \<open>
  The declared type is erased at run time: \<^verbatim>\<open>response.data\<close> is untyped, and the hook
  stores whatever truthy \<^verbatim>\<open>txStatus\<close> a reply carries. So the value of the hook's
  state cell, which starts at \<^verbatim>\<open>null\<close>, and of a session's \<^verbatim>\<open>txStatus\<close> field
  (absent is \<^const>\<open>None\<close>) is an arbitrary string or \<^verbatim>\<open>null\<close>, and the comparisons
  of the source are comparisons of strings.
\<close>

type_synonym TransactionStatus = "string option"

text \<open>
  Modelled from the spec: \<^verbatim>\<open>DepositSession\<close> is declared in the same missing file. The
  record holds the fields the sources read or write: \<^verbatim>\<open>_id\<close> (here \<open>sid\<close>),
  \<^verbatim>\<open>userAddress\<close>, \<^verbatim>\<open>depositAddress\<close>, \<^verbatim>\<open>status\<close> (a free-form string sent by the
  server: PENDING, EXPIRED, ...) and the optional \<^verbatim>\<open>txStatus\<close>.
\<close>

record DepositSession =
  sid :: string
  userAddress :: string
  depositAddress :: string
  status :: string
  txStatus :: TransactionStatus

text \<open>The nine \<^verbatim>\<open>useState\<close> cells of the hook, in declaration order.\<close>

record HookState =
  sessionId :: "string option"
  currentSession :: "DepositSession option"
  showQR :: bool
  timeLeft :: int
  transactionStatus :: TransactionStatus
  progressPercentage :: rat
  completionCountdown :: int
  isDepositCompleted :: bool
  error :: "string option"

definition initialState :: HookState where
  "initialState =
     \<lparr> sessionId = None, currentSession = None, showQR = False, timeLeft = 300,
       transactionStatus = None, progressPercentage = 0, completionCountdown = 0,
       isDepositCompleted = False, error = None \<rparr>"

text \<open>
  \<^verbatim>\<open>UseDepositSessionReturn\<close>: the eight state values the hook hands to its caller
  (\<^verbatim>\<open>completionCountdown\<close> is internal and not returned).
\<close>

record Returned =
  r_sessionId :: "string option"
  r_currentSession :: "DepositSession option"
  r_showQR :: bool
  r_timeLeft :: int
  r_transactionStatus :: TransactionStatus
  r_progressPercentage :: rat
  r_isDepositCompleted :: bool
  r_error :: "string option"

definition returned :: "HookState \<Rightarrow> Returned" where
  "returned s =
     \<lparr> r_sessionId = sessionId s, r_currentSession = currentSession s, r_showQR = showQR s,
       r_timeLeft = timeLeft s, r_transactionStatus = transactionStatus s,
       r_progressPercentage = progressPercentage s,
       r_isDepositCompleted = isDepositCompleted s, r_error = error s \<rparr>"

text \<open>
  The two constants imported from \<^verbatim>\<open>config/constants\<close> (not among the sources) are
  parameters of the model.
\<close>

record Config =
  PROXY_URL :: string
  DEPOSIT_ADDRESS :: string

subsection \<open>The network\<close>

text \<open>
  A request is the URL and, for a POST, the JSON payload as its list of fields. The reply
  to a GET is the response body (\<^verbatim>\<open>response.data\<close>, possibly \<^verbatim>\<open>null\<close>) or a
  rejected promise. A rejected POST carries the thrown value: either it has no
  \<^verbatim>\<open>response\<close> property, or it has one, and then
  \<^verbatim>\<open>response?.data?.error\<close> is a string or undefined.
\<close>

datatype Request = GET string | POST string "(string \<times> string) list"

datatype Thrown = NoResponse | WithResponse "string option"

datatype Reply = Ok "DepositSession option" | Rejected Thrown

text \<open>JavaScript truthiness of a \<^verbatim>\<open>string | null\<close>: \<^verbatim>\<open>null\<close> and the empty string are falsy.\<close>

definition truthy :: "string option \<Rightarrow> bool" where
  "truthy x = (case x of None \<Rightarrow> False | Some s \<Rightarrow> s \<noteq> [])"

subsection \<open>Interval timers\<close>

text \<open>
  \<^verbatim>\<open>setInterval\<close> and \<^verbatim>\<open>clearInterval\<close> act on the browser's timer table. A
  callback is recorded with what its closure captured: the completion tick reads
  \<^verbatim>\<open>completionCountdown\<close> of the render that created it; the poll tick calls the
  \<^verbatim>\<open>checkSessionStatus\<close> that \<^verbatim>\<open>createSession\<close> closed over, which reads
  the state of the render in which \<^verbatim>\<open>createSession\<close> was obtained, together with the
  \<^verbatim>\<open>userAddress\<close> argument.
\<close>

datatype Callback =
    CompletionTick int
  | ExpiryTick
  | PollTick HookState string

record Timers =
  active :: "(nat \<times> Callback) list"
  nextId :: nat

definition noTimers :: Timers where
  "noTimers = \<lparr> active = [], nextId = 0 \<rparr>"

definition setInterval :: "Callback \<Rightarrow> Timers \<Rightarrow> nat \<times> Timers" where
  "setInterval cb T =
     (nextId T, \<lparr> active = active T @ [(nextId T, cb)], nextId = Suc (nextId T) \<rparr>)"

definition clearInterval :: "nat \<Rightarrow> Timers \<Rightarrow> Timers" where
  "clearInterval i T = T \<lparr> active := filter (\<lambda>(j, cb). j \<noteq> i) (active T) \<rparr>"

text \<open>
  A cleanup function \<^verbatim>\<open>() => clearInterval(timer)\<close> is the identifier it will clear;
  \<^verbatim>\<open>undefined\<close> (no cleanup) is \<^const>\<open>None\<close>.
\<close>

definition runCleanup :: "nat option \<Rightarrow> Timers \<Rightarrow> Timers" where
  "runCleanup c T = (case c of None \<Rightarrow> T | Some i \<Rightarrow> clearInterval i T)"

section \<open>The hook\<close>

subsection \<open>Progress from status\<close>

definition getProgressFromStatus :: "TransactionStatus \<Rightarrow> rat" where
  "getProgressFromStatus st =
     (if st = Some ''DETECTED'' then 20
      else if st = Some ''PROCESSING'' then 40
      else if st = Some ''CONFIRMING'' then 60
      else if st = Some ''CONFIRMED'' then 80
      else if st = Some ''COMPLETED'' then 100
      else 0)"

subsection \<open>Effects\<close>

text \<open>
  An effect body runs after a render. It reads the state \<open>r\<close> of that render and queues
  updates, which are applied to the pending state \<open>p\<close>. An effect that sets up an interval
  also changes the timer table and returns its cleanup.

  First effect (dependencies \<^verbatim>\<open>[transactionStatus]\<close>).
\<close>

definition statusEffect :: "HookState \<Rightarrow> HookState \<Rightarrow> HookState" where
  "statusEffect r p =
     (if truthy (transactionStatus r) then
        (let p1 = p \<lparr> progressPercentage := getProgressFromStatus (transactionStatus r) \<rparr>
         in if transactionStatus r = Some ''CONFIRMED''
            then p1 \<lparr> completionCountdown := 20 \<rparr> else p1)
      else p)"

text \<open>
  Second effect (dependencies \<^verbatim>\<open>[completionCountdown, transactionStatus]\<close>) and the
  callback of its interval. The callback decrements the current countdown (functional
  update) and computes the progress from the countdown \<open>c\<close> of its closure.
\<close>

definition completionEffect ::
  "HookState \<Rightarrow> HookState \<times> Timers \<Rightarrow> HookState \<times> Timers \<times> nat option" where
  "completionEffect r pT =
     (case pT of (p, T) \<Rightarrow>
        if completionCountdown r \<le> 0 then
          ((if transactionStatus r = Some ''CONFIRMED''
            then p \<lparr> transactionStatus := Some ''COMPLETED'' \<rparr> else p), T, None)
        else
          (case setInterval (CompletionTick (completionCountdown r)) T of
             (timer, T') \<Rightarrow> (p, T', Some timer)))"

definition completionTick :: "int \<Rightarrow> HookState \<Rightarrow> HookState" where
  "completionTick c p =
     (let newProgress = 80 + ((30 - rat_of_int c) / 30) * 20
      in p \<lparr> completionCountdown := completionCountdown p - 1,
             progressPercentage := min newProgress 100 \<rparr>)"

text \<open>
  Third effect (dependencies \<^verbatim>\<open>[showQR, currentSession, timeLeft]\<close>) and the callback
  of its interval.
\<close>

definition expiryReturnsEarly :: "HookState \<Rightarrow> bool" where
  "expiryReturnsEarly r =
     (\<not> showQR r \<or> currentSession r = None
      \<or> (case currentSession r of None \<Rightarrow> True | Some d \<Rightarrow> status d \<noteq> ''PENDING'')
      \<or> timeLeft r \<le> 0)"

definition expiryEffect :: "HookState \<Rightarrow> Timers \<Rightarrow> Timers \<times> nat option" where
  "expiryEffect r T =
     (if expiryReturnsEarly r then (T, None)
      else (case setInterval ExpiryTick T of (timer, T') \<Rightarrow> (T', Some timer)))"

definition expiryTick :: "HookState \<Rightarrow> HookState" where
  "expiryTick p =
     (let newTime = timeLeft p - 1
      in if newTime \<le> 0 then
           p \<lparr> showQR := False,
               currentSession :=
                 (case currentSession p of
                    Some prev \<Rightarrow> Some (prev \<lparr> status := ''EXPIRED'' \<rparr>)
                  | None \<Rightarrow> None),
               timeLeft := 0 \<rparr>
         else p \<lparr> timeLeft := newTime \<rparr>)"

subsection \<open>Polling, creation and reset\<close>

text \<open>
  \<^verbatim>\<open>checkSessionStatus\<close>: \<open>r\<close> is the render state the callback closed over (its
  dependencies are exactly the four cells it reads), \<open>reply\<close> is what the server answers
  if the GET is sent. The result is the list of requests sent and the pending state.
\<close>

definition checkSessionStatus ::
  "Config \<Rightarrow> HookState \<Rightarrow> string \<Rightarrow> Reply \<Rightarrow> HookState \<Rightarrow> Request list \<times> HookState" where
  "checkSessionStatus cfg r userAddr reply p =
     (if \<not> truthy (sessionId r) \<or> currentSession r = None \<or> isDepositCompleted r
      then ([], p)
      else
        ([GET (PROXY_URL cfg @ ''/deposit-sessions/user/'' @ userAddr)],
         (case reply of
            Rejected e \<Rightarrow> p
          | Ok None \<Rightarrow> p
          | Ok (Some session) \<Rightarrow>
              (let p1 = p \<lparr> currentSession := Some session \<rparr>
               in if truthy (txStatus session) \<and> txStatus session \<noteq> transactionStatus r
                  then
                    (let p2 = p1 \<lparr> transactionStatus := txStatus session \<rparr>
                     in if txStatus session = Some ''COMPLETED''
                        then p2 \<lparr> isDepositCompleted := True \<rparr> else p2)
                  else p1))))"

text \<open>
  \<^verbatim>\<open>createSession\<close>: \<open>r\<close> is the render state that the \<^verbatim>\<open>checkSessionStatus\<close> in
  scope closed over. The result is the request sent, the pending state, the timer table
  and the returned cleanup. A body of \<^verbatim>\<open>null\<close> makes
  \<^verbatim>\<open>response.data._id\<close> throw after \<^verbatim>\<open>setCurrentSession\<close>; the thrown TypeError has
  no \<^verbatim>\<open>response\<close> property.
\<close>

definition failureMessage :: "Thrown \<Rightarrow> string" where
  "failureMessage e =
     (case e of
        NoResponse \<Rightarrow> ''Failed to create deposit session''
      | WithResponse None \<Rightarrow> ''Failed to create deposit session''
      | WithResponse (Some m) \<Rightarrow> (if m \<noteq> [] then m else ''Failed to create deposit session''))"

definition createSession ::
  "Config \<Rightarrow> HookState \<Rightarrow> string \<Rightarrow> Reply \<Rightarrow> HookState \<times> Timers
     \<Rightarrow> Request \<times> HookState \<times> Timers \<times> nat option" where
  "createSession cfg r userAddr reply pT =
     (case pT of (p, T) \<Rightarrow>
        (let payload = [(''userAddress'', userAddr), (''depositAddress'', DEPOSIT_ADDRESS cfg)];
             request = POST (PROXY_URL cfg @ ''/deposit-sessions'') payload
         in case reply of
              Ok (Some d) \<Rightarrow>
                (case setInterval (PollTick r userAddr) T of
                   (pollInterval, T') \<Rightarrow>
                     (request,
                      p \<lparr> sessionId := Some (sid d), currentSession := Some d, showQR := True,
                          timeLeft := 300, transactionStatus := None, progressPercentage := 0,
                          isDepositCompleted := False, error := None \<rparr>,
                      T', Some pollInterval))
            | Ok None \<Rightarrow>
                (request,
                 p \<lparr> currentSession := None, error := Some (failureMessage NoResponse) \<rparr>,
                 T, None)
            | Rejected e \<Rightarrow>
                (request, p \<lparr> error := Some (failureMessage e) \<rparr>, T, None)))"

definition resetSession :: "HookState \<Rightarrow> HookState" where
  "resetSession p =
     p \<lparr> sessionId := None, currentSession := None, showQR := False, timeLeft := 300,
         transactionStatus := None, progressPercentage := 0, isDepositCompleted := False,
         error := None \<rparr>"

section \<open>The React runtime around the hook\<close>

text \<open>
  What React keeps for the mounted hook: the committed state, the browser's timer table,
  and for each effect the dependency values of its last run and the cleanup it returned.
  The trace of HTTP exchanges (request and reply) records the hook's traffic.

  Dependencies are compared by value here; React compares \<^verbatim>\<open>currentSession\<close> by
  reference, which can only re-run the third effect more often, replacing its interval by
  an identical one.
\<close>

record Runtime =
  hook :: HookState
  timers :: Timers
  network :: "(Request \<times> Reply) list"
  statusDeps :: TransactionStatus
  completionDeps :: "int \<times> TransactionStatus"
  completionCleanup :: "nat option"
  expiryDeps :: "bool \<times> DepositSession option \<times> int"
  expiryCleanup :: "nat option"

definition statusDepsOf :: "HookState \<Rightarrow> TransactionStatus" where
  "statusDepsOf r = transactionStatus r"

definition completionDepsOf :: "HookState \<Rightarrow> int \<times> TransactionStatus" where
  "completionDepsOf r = (completionCountdown r, transactionStatus r)"

definition expiryDepsOf :: "HookState \<Rightarrow> bool \<times> DepositSession option \<times> int" where
  "expiryDepsOf r = (showQR r, currentSession r, timeLeft r)"

definition quiescent :: "Runtime \<Rightarrow> bool" where
  "quiescent R =
     (statusDeps R = statusDepsOf (hook R) \<and> completionDeps R = completionDepsOf (hook R)
      \<and> expiryDeps R = expiryDepsOf (hook R))"

text \<open>
  One commit: the cleanups of the effects whose dependencies changed run first, then the
  bodies of those effects in declaration order, all reading the state \<open>r\<close> of this render;
  the queued updates give the next state.
\<close>

definition render :: "Runtime \<Rightarrow> Runtime" where
  "render R =
     (let r = hook R;
          runStatus = (statusDeps R \<noteq> statusDepsOf r);
          runCompletion = (completionDeps R \<noteq> completionDepsOf r);
          runExpiry = (expiryDeps R \<noteq> expiryDepsOf r);
          T1 = (if runCompletion then runCleanup (completionCleanup R) (timers R) else timers R);
          T2 = (if runExpiry then runCleanup (expiryCleanup R) T1 else T1);
          p1 = (if runStatus then statusEffect r r else r);
          pTc = (if runCompletion then completionEffect r (p1, T2)
                 else (p1, T2, completionCleanup R));
          Tc = (if runExpiry then expiryEffect r (fst (snd pTc))
                else (fst (snd pTc), expiryCleanup R))
      in R \<lparr> hook := fst pTc, timers := fst Tc,
             statusDeps := statusDepsOf r, completionDeps := completionDepsOf r,
             completionCleanup := snd (snd pTc),
             expiryDeps := expiryDepsOf r, expiryCleanup := snd Tc \<rparr>)"

subsection \<open>Re-rendering until no effect has to run\<close>

text \<open>
  The queued updates of a commit trigger the next render. The hook's effects only write
  \<^verbatim>\<open>progressPercentage\<close>, \<^verbatim>\<open>completionCountdown\<close> and
  \<^verbatim>\<open>transactionStatus\<close>; the lemmas below say how, and that after two commits the
  dependencies of all three effects are those of the committed state.
\<close>

lemma truthy_simps [simp]:
  "truthy None = False"
  "truthy (Some s) = (s \<noteq> [])"
  by (simp_all add: truthy_def)

lemma getProgressFromStatus_simps [simp]:
  "getProgressFromStatus None = 0"
  "getProgressFromStatus (Some ''DETECTED'') = 20"
  "getProgressFromStatus (Some ''PROCESSING'') = 40"
  "getProgressFromStatus (Some ''CONFIRMING'') = 60"
  "getProgressFromStatus (Some ''CONFIRMED'') = 80"
  "getProgressFromStatus (Some ''COMPLETED'') = 100"
  by (simp_all add: getProgressFromStatus_def)

lemma render_quiescent: "quiescent R \<Longrightarrow> render R = R"
  by (simp add: quiescent_def render_def Let_def)

lemma render_deps [simp]:
  "statusDeps (render R) = statusDepsOf (hook R)"
  "completionDeps (render R) = completionDepsOf (hook R)"
  "expiryDeps (render R) = expiryDepsOf (hook R)"
  by (simp_all add: render_def Let_def)

lemma completionEffect_fst:
  "fst (completionEffect r (p, T)) =
     (if completionCountdown r \<le> 0 \<and> transactionStatus r = Some ''CONFIRMED''
      then p \<lparr> transactionStatus := Some ''COMPLETED'' \<rparr> else p)"
  by (simp add: completionEffect_def setInterval_def)

lemma hook_render:
  "hook (render R) =
     (let r = hook R;
          p1 = (if statusDeps R \<noteq> statusDepsOf r then statusEffect r r else r)
      in if completionDeps R \<noteq> completionDepsOf r \<and> completionCountdown r \<le> 0
            \<and> transactionStatus r = Some ''CONFIRMED''
         then p1 \<lparr> transactionStatus := Some ''COMPLETED'' \<rparr> else p1)"
  by (simp add: render_def Let_def completionEffect_fst)

lemma render_transactionStatus:
  "transactionStatus (hook (render R)) =
     (if completionDeps R \<noteq> completionDepsOf (hook R) \<and> completionCountdown (hook R) \<le> 0
         \<and> transactionStatus (hook R) = Some ''CONFIRMED''
      then Some ''COMPLETED'' else transactionStatus (hook R))"
  by (simp add: hook_render Let_def statusEffect_def)

lemma render_completionCountdown:
  "completionCountdown (hook (render R)) =
     (if statusDeps R \<noteq> statusDepsOf (hook R) \<and> transactionStatus (hook R) = Some ''CONFIRMED''
      then 20 else completionCountdown (hook R))"
  by (simp add: hook_render Let_def statusEffect_def)

lemma render_frame [simp]:
  "showQR (hook (render R)) = showQR (hook R)"
  "currentSession (hook (render R)) = currentSession (hook R)"
  "timeLeft (hook (render R)) = timeLeft (hook R)"
  "sessionId (hook (render R)) = sessionId (hook R)"
  "isDepositCompleted (hook (render R)) = isDepositCompleted (hook R)"
  "error (hook (render R)) = error (hook R)"
  by (simp_all add: hook_render Let_def statusEffect_def)

lemma render_network [simp]: "network (render R) = network R"
  by (simp add: render_def Let_def)

lemma quiescent_render_render: "quiescent (render (render R))"
proof -
  let ?r0 = "hook R" and ?r1 = "hook (render R)"
  have ts: "transactionStatus (hook (render (render R))) = transactionStatus ?r1"
  proof (cases "transactionStatus ?r1 = Some ''CONFIRMED'' \<and> completionCountdown ?r1 \<le> 0")
    case False
    then show ?thesis
      by (subst render_transactionStatus) auto
  next
    case True
    then have t0: "transactionStatus ?r0 = Some ''CONFIRMED''"
      by (simp add: render_transactionStatus split: if_splits)
    with True have "\<not> (completionDeps R \<noteq> completionDepsOf ?r0 \<and> completionCountdown ?r0 \<le> 0)"
      by (simp add: render_transactionStatus split: if_splits)
    moreover from True t0 have "completionCountdown ?r1 = completionCountdown ?r0"
      by (simp add: render_completionCountdown split: if_splits)
    ultimately have "completionDeps (render R) = completionDepsOf ?r1"
      using True t0 by (simp add: completionDepsOf_def)
    then show ?thesis
      by (subst render_transactionStatus) simp
  qed
  have cc: "completionCountdown (hook (render (render R))) = completionCountdown ?r1"
  proof (cases "transactionStatus ?r1 = transactionStatus ?r0")
    case True
    then show ?thesis
      by (subst render_completionCountdown) (simp add: statusDepsOf_def)
  next
    case False
    then have "transactionStatus ?r1 = Some ''COMPLETED''"
      by (simp add: render_transactionStatus split: if_splits)
    then show ?thesis
      by (subst render_completionCountdown) simp
  qed
  show ?thesis
    by (simp add: quiescent_def statusDepsOf_def completionDepsOf_def expiryDepsOf_def ts cc)
qed

text \<open>React re-renders until a commit queues no update that changes a dependency.\<close>

function settle :: "Runtime \<Rightarrow> Runtime" where
  "settle R = (if quiescent R then R else settle (render R))"
  by pat_completeness auto

termination
  by (relation "measure (\<lambda>R. if quiescent R then 0 else if quiescent (render R) then 1 else 2)")
     (auto simp: quiescent_render_render)

declare settle.simps [simp del]

subsection \<open>Mounting and events\<close>

text \<open>
  On mount every effect runs once on the initial state. Afterwards the hook is driven by
  its caller (\<^verbatim>\<open>createSession\<close>, \<^verbatim>\<open>resetSession\<close>, the cleanup that
  \<^verbatim>\<open>createSession\<close> returned) and by the browser firing an interval that is still
  active. An event carries the server's reply to the request it may send. Each event is
  followed by the renders it triggers. An \<^verbatim>\<open>await\<close> is taken as one step together
  with the code after it.
\<close>

definition mount :: Runtime where
  "mount =
     (let r = initialState;
          p1 = statusEffect r r;
          pTc = completionEffect r (p1, noTimers);
          Tc = expiryEffect r (fst (snd pTc))
      in settle \<lparr> hook = fst pTc, timers = fst Tc, network = [],
             statusDeps = statusDepsOf r, completionDeps = completionDepsOf r,
             completionCleanup = snd (snd pTc),
             expiryDeps = expiryDepsOf r, expiryCleanup = snd Tc \<rparr>)"

datatype Event =
    CallCreateSession string Reply
  | CallResetSession
  | CallCleanup nat
  | Fire nat Reply

definition fire :: "Config \<Rightarrow> nat \<Rightarrow> Reply \<Rightarrow> Runtime \<Rightarrow> Runtime" where
  "fire cfg i reply R =
     (case map_of (active (timers R)) i of
        None \<Rightarrow> R
      | Some (CompletionTick c) \<Rightarrow> R \<lparr> hook := completionTick c (hook R) \<rparr>
      | Some ExpiryTick \<Rightarrow> R \<lparr> hook := expiryTick (hook R) \<rparr>
      | Some (PollTick r userAddr) \<Rightarrow>
          (case checkSessionStatus cfg r userAddr reply (hook R) of
             (requests, p) \<Rightarrow>
               R \<lparr> hook := p, network := network R @ map (\<lambda>q. (q, reply)) requests \<rparr>))"

text \<open>
  The caller holds cleanups only for poll intervals, so \<open>CallCleanup\<close> acts on those.
\<close>

definition callCleanup :: "nat \<Rightarrow> Runtime \<Rightarrow> Runtime" where
  "callCleanup i R =
     (case map_of (active (timers R)) i of
        Some (PollTick r userAddr) \<Rightarrow> R \<lparr> timers := runCleanup (Some i) (timers R) \<rparr>
      | _ \<Rightarrow> R)"

definition callCreateSession :: "Config \<Rightarrow> string \<Rightarrow> Reply \<Rightarrow> Runtime \<Rightarrow> Runtime" where
  "callCreateSession cfg userAddr reply R =
     (case createSession cfg (hook R) userAddr reply (hook R, timers R) of
        (request, p, T, cleanup) \<Rightarrow>
          R \<lparr> hook := p, timers := T, network := network R @ [(request, reply)] \<rparr>)"

definition step :: "Config \<Rightarrow> Runtime \<Rightarrow> Event \<Rightarrow> Runtime" where
  "step cfg R ev =
     settle (case ev of
               CallCreateSession userAddr reply \<Rightarrow> callCreateSession cfg userAddr reply R
             | CallResetSession \<Rightarrow> R \<lparr> hook := resetSession (hook R) \<rparr>
             | CallCleanup i \<Rightarrow> callCleanup i R
             | Fire i reply \<Rightarrow> fire cfg i reply R)"

definition run :: "Config \<Rightarrow> Event list \<Rightarrow> Runtime" where
  "run cfg evs = foldl (step cfg) mount evs"


section \<open>The deposit components\<close>

subsection \<open>The countdown display\<close>





















subsection \<open>The status message\<close>

text \<open>\<^verbatim>\<open>getStatusMessage\<close> of \<^verbatim>\<open>DepositProgressBar.tsx\<close>.\<close>

definition getStatusMessage :: "TransactionStatus \<Rightarrow> string" where
  "getStatusMessage st =
     (if st = Some ''DETECTED'' then ''Transaction Detected''
      else if st = Some ''PROCESSING'' then ''Processing...''
      else if st = Some ''CONFIRMING'' then ''Confirming...''
      else if st = Some ''CONFIRMED'' then ''Confirmed! Updating balance...''
      else if st = Some ''COMPLETED'' then ''Deposit Complete!''
      else ''Waiting for transaction...'')"

section \<open>Notions used in the statements\<close>

text \<open>
  None of the following is code of the repository: an order on statuses, the statuses found
  in the HTTP trace, a classification of timers, and concrete data for closed examples.
\<close>

text \<open>
  Position in the chain DETECTED, PROCESSING, CONFIRMING, CONFIRMED, COMPLETED; \<^verbatim>\<open>null\<close>
  and any string outside the chain come before it.
\<close>

definition chainRank :: "TransactionStatus \<Rightarrow> nat" where
  "chainRank st =
     (if st = Some ''DETECTED'' then 1
      else if st = Some ''PROCESSING'' then 2
      else if st = Some ''CONFIRMING'' then 3
      else if st = Some ''CONFIRMED'' then 4
      else if st = Some ''COMPLETED'' then 5
      else 0)"

text \<open>
  The \<^verbatim>\<open>txStatus\<close> values the hook has received from polls: those of the bodies that
  answered a GET of the trace.
\<close>

fun polledStatus :: "Request \<times> Reply \<Rightarrow> TransactionStatus" where
  "polledStatus (GET url, Ok (Some d)) = txStatus d"
| "polledStatus (GET url, Ok None) = None"
| "polledStatus (GET url, Rejected e) = None"
| "polledStatus (POST url payload, reply) = None"

definition polledStatuses :: "(Request \<times> Reply) list \<Rightarrow> TransactionStatus set" where
  "polledStatuses net = set (map polledStatus net)"


subsection \<open>Example data\<close>

definition exampleConfig :: Config where
  "exampleConfig = \<lparr> PROXY_URL = ''https://proxy'', DEPOSIT_ADDRESS = ''0xD'' \<rparr>"

definition exampleSession :: DepositSession where
  "exampleSession =
     \<lparr> sid = ''s1'', userAddress = ''0xA'', depositAddress = ''0xD'', status = ''PENDING'',
       txStatus = None \<rparr>"

definition otherSession :: DepositSession where
  "otherSession =
     \<lparr> sid = ''s2'', userAddress = ''0xB'', depositAddress = ''0xD'', status = ''PENDING'',
       txStatus = None \<rparr>"

definition withTx :: "TxStatus \<Rightarrow> DepositSession" where
  "withTx t = exampleSession \<lparr> txStatus := Some (statusName t) \<rparr>"

text \<open>
  The caller creates a session twice. The poll interval of the first call (timer 0) closed
  over the initial state; the one of the second call (timer 2) closed over a state with a
  session.
\<close>

definition twoCreates :: "Event list" where
  "twoCreates =
     [CallCreateSession ''0xA'' (Ok (Some exampleSession)),
      CallCreateSession ''0xA'' (Ok (Some exampleSession))]"

section \<open>Invariants of the runtime\<close>

text \<open>
  The bound needs more than the state: the callback of a completion interval computes the
  progress from the countdown it closed over, so every active completion interval must
  carry a countdown between 1 and 20.
\<close>

definition tickBounded :: "Callback \<Rightarrow> bool" where
  "tickBounded cb = (case cb of CompletionTick c \<Rightarrow> 0 < c \<and> c \<le> 20 | _ \<Rightarrow> True)"

definition progressInv :: "Runtime \<Rightarrow> bool" where
  "progressInv R =
     (0 \<le> progressPercentage (hook R) \<and> progressPercentage (hook R) \<le> 100
      \<and> completionCountdown (hook R) \<le> 20
      \<and> list_all (\<lambda>(i, cb). tickBounded cb) (active (timers R)))"

text \<open>
  Where a held status can come from: a polled reply, or the local step from CONFIRMED to
  COMPLETED.
\<close>

definition statusOrigin :: "Runtime \<Rightarrow> bool" where
  "statusOrigin R =
     (transactionStatus (hook R) = None
      \<or> transactionStatus (hook R) \<in> polledStatuses (network R)
      \<or> (transactionStatus (hook R) = Some ''COMPLETED''
          \<and> Some ''CONFIRMED'' \<in> polledStatuses (network R)))"

text \<open>
  Identifiers handed out by \<^verbatim>\<open>setInterval\<close> are fresh: every active timer has an
  identifier below the next one, and no two active timers share one.
\<close>

definition idsFresh :: "Timers \<Rightarrow> bool" where
  "idsFresh T = (list_all (\<lambda>(j, cb). j < nextId T) (active T) \<and> distinct (map fst (active T)))"

text \<open>A timer, once created, is only ever removed: its identifier is not reused.\<close>

definition pinned :: "nat \<Rightarrow> Callback \<Rightarrow> Timers \<Rightarrow> bool" where
  "pinned i cb T =
     (i < nextId T \<and> (map_of (active T) i = None \<or> map_of (active T) i = Some cb))"

text \<open>
  The early-return test of the expiry effect, on the dependency values React stored; then
  what React's bookkeeping guarantees about the timer table: an interval of a countdown
  effect is active only as long as React holds the cleanup that clears it, the completion
  interval exists exactly while the recorded countdown is positive and closes over that
  countdown, and the expiry interval exists exactly while the recorded dependencies pass
  the test.
\<close>

definition expiryDepsIdle :: "bool \<times> DepositSession option \<times> int \<Rightarrow> bool" where
  "expiryDepsIdle deps =
     (case deps of (q, cs, t) \<Rightarrow>
        \<not> q \<or> (case cs of None \<Rightarrow> True | Some d \<Rightarrow> status d \<noteq> ''PENDING'') \<or> t \<le> 0)"

definition ownedTimer :: "Runtime \<Rightarrow> nat \<Rightarrow> bool" where
  "ownedTimer R i =
     (case map_of (active (timers R)) i of
        None \<Rightarrow> True
      | Some (CompletionTick c) \<Rightarrow> completionCleanup R = Some i \<and> c = fst (completionDeps R)
      | Some ExpiryTick \<Rightarrow> expiryCleanup R = Some i
      | Some (PollTick r a) \<Rightarrow> True)"

definition owned :: "Runtime \<Rightarrow> bool" where
  "owned R =
     (idsFresh (timers R)
      \<and> (\<forall>i. ownedTimer R i)
      \<and> (case completionCleanup R of
            None \<Rightarrow> fst (completionDeps R) \<le> 0
          | Some i \<Rightarrow> 0 < fst (completionDeps R)
              \<and> map_of (active (timers R)) i = Some (CompletionTick (fst (completionDeps R))))
      \<and> (case expiryCleanup R of
            None \<Rightarrow> expiryDepsIdle (expiryDeps R)
          | Some i \<Rightarrow> \<not> expiryDepsIdle (expiryDeps R)
              \<and> map_of (active (timers R)) i = Some ExpiryTick))"

text \<open>\<^verbatim>\<open>timeLeft\<close> stays between 0 and the 300 seconds a session starts with.\<close>

definition timeLeftInv :: "Runtime \<Rightarrow> bool" where
  "timeLeftInv R = (0 \<le> timeLeft (hook R) \<and> timeLeft (hook R) \<le> 300)"

section \<open>Properties of the runtime\<close>

lemma settle_quiescent: "quiescent R \<Longrightarrow> settle R = R"
  by (subst settle.simps) simp

lemma settle_unfold:
  "settle R = (if quiescent R then R else if quiescent (render R) then render R
               else render (render R))"
  by (subst settle.simps, subst settle.simps, subst settle.simps)
     (simp add: quiescent_render_render)

lemma quiescent_settle: "quiescent (settle R)"
  by (simp add: settle_unfold quiescent_render_render)

lemma settle_preserves:
  assumes "P R" and "\<And>R'. P R' \<Longrightarrow> P (render R')"
  shows "P (settle R)"
  using assms by (simp add: settle_unfold)

lemma mount_eq:
  "mount = \<lparr> hook = initialState, timers = noTimers, network = [],
             statusDeps = None, completionDeps = (0, None), completionCleanup = None,
             expiryDeps = (False, None, 300), expiryCleanup = None \<rparr>"
  by (simp add: mount_def Let_def initialState_def statusEffect_def completionEffect_def
        expiryEffect_def expiryReturnsEarly_def statusDepsOf_def completionDepsOf_def
        expiryDepsOf_def quiescent_def settle_quiescent)

lemma run_Nil: "run cfg [] = mount"
  by (simp add: run_def)

lemma run_snoc: "run cfg (evs @ [ev]) = step cfg (run cfg evs) ev"
  by (simp add: run_def)

lemma quiescent_run: "quiescent (run cfg evs)"
proof (cases evs rule: rev_cases)
  case Nil
  then show ?thesis
    by (simp add: run_Nil mount_def Let_def quiescent_settle)
next
  case (snoc evs' ev)
  then show ?thesis
    by (simp add: run_snoc step_def quiescent_settle)
qed

section \<open>The progress percentage stays within 0 and 100\<close>

lemma getProgressFromStatus_range: "0 \<le> getProgressFromStatus s \<and> getProgressFromStatus s \<le> 100"
  by (simp add: getProgressFromStatus_def)

lemma completionTick_progress:
  "0 < c \<Longrightarrow> c \<le> 20 \<Longrightarrow>
   0 \<le> progressPercentage (completionTick c p) \<and> progressPercentage (completionTick c p) \<le> 100"
  by (simp add: completionTick_def Let_def)

lemma list_all_clearInterval:
  "list_all P (active T) \<Longrightarrow> list_all P (active (clearInterval i T))"
  by (simp add: clearInterval_def list_all_iff)

lemma list_all_runCleanup:
  "list_all P (active T) \<Longrightarrow> list_all P (active (runCleanup c T))"
  by (cases c) (simp_all add: runCleanup_def list_all_clearInterval)

lemma timers_render:
  "timers (render R) =
     (let r = hook R;
          T1 = (if completionDeps R \<noteq> completionDepsOf r
                then runCleanup (completionCleanup R) (timers R) else timers R);
          T2 = (if expiryDeps R \<noteq> expiryDepsOf r then runCleanup (expiryCleanup R) T1 else T1);
          T3 = (if completionDeps R \<noteq> completionDepsOf r \<and> 0 < completionCountdown r
                then snd (setInterval (CompletionTick (completionCountdown r)) T2) else T2)
      in if expiryDeps R \<noteq> expiryDepsOf r \<and> \<not> expiryReturnsEarly r
         then snd (setInterval ExpiryTick T3) else T3)"
  by (simp add: render_def Let_def completionEffect_def expiryEffect_def split: prod.splits)

lemma active_setInterval: "active (snd (setInterval cb T)) = active T @ [(nextId T, cb)]"
  by (simp add: setInterval_def)

lemma progressInv_render: "progressInv R \<Longrightarrow> progressInv (render R)"
  unfolding progressInv_def
  apply (intro conjI)
  subgoal by (simp add: hook_render Let_def statusEffect_def getProgressFromStatus_range)
  subgoal by (simp add: hook_render Let_def statusEffect_def getProgressFromStatus_range)
  subgoal by (simp add: render_completionCountdown)
  subgoal by (simp add: timers_render Let_def active_setInterval list_all_runCleanup tickBounded_def)
  done

lemma progressInv_settle: "progressInv R \<Longrightarrow> progressInv (settle R)"
  by (rule settle_preserves) (simp_all add: progressInv_render)

lemma map_of_list_all:
  "list_all (\<lambda>(i, cb). P cb) xs \<Longrightarrow> map_of xs i = Some cb \<Longrightarrow> P cb"
  by (auto simp: list_all_iff dest: map_of_SomeD)

lemma checkSessionStatus_frame:
  "progressPercentage (snd (checkSessionStatus cfg r a reply p)) = progressPercentage p"
  "completionCountdown (snd (checkSessionStatus cfg r a reply p)) = completionCountdown p"
  "timeLeft (snd (checkSessionStatus cfg r a reply p)) = timeLeft p"
  "showQR (snd (checkSessionStatus cfg r a reply p)) = showQR p"
  "sessionId (snd (checkSessionStatus cfg r a reply p)) = sessionId p"
  "error (snd (checkSessionStatus cfg r a reply p)) = error p"
  by (simp_all add: checkSessionStatus_def Let_def split: Reply.splits option.splits)

lemma expiryTick_frame:
  "progressPercentage (expiryTick p) = progressPercentage p"
  "completionCountdown (expiryTick p) = completionCountdown p"
  "transactionStatus (expiryTick p) = transactionStatus p"
  "sessionId (expiryTick p) = sessionId p"
  "isDepositCompleted (expiryTick p) = isDepositCompleted p"
  "error (expiryTick p) = error p"
  by (simp_all add: expiryTick_def Let_def)

lemma timers_fire: "timers (fire cfg i reply R) = timers R"
  by (simp add: fire_def split: option.splits Callback.splits prod.splits)

lemma progressInv_fire: "progressInv R \<Longrightarrow> progressInv (fire cfg i reply R)"
proof -
  assume inv: "progressInv R"
  show ?thesis
  proof (cases "map_of (active (timers R)) i")
    case None
    with inv show ?thesis by (simp add: fire_def)
  next
    case (Some cb)
    show ?thesis
    proof (cases cb)
      case (CompletionTick c)
      from inv Some have "tickBounded cb"
        unfolding progressInv_def by (blast intro: map_of_list_all)
      with CompletionTick have c: "0 < c" "c \<le> 20" by (simp_all add: tickBounded_def)
      have "fire cfg i reply R = R \<lparr> hook := completionTick c (hook R) \<rparr>"
        using Some CompletionTick by (simp add: fire_def)
      moreover have "completionCountdown (completionTick c (hook R)) = completionCountdown (hook R) - 1"
        by (simp add: completionTick_def Let_def)
      ultimately show ?thesis
        using inv completionTick_progress [OF c, of "hook R"] by (simp add: progressInv_def)
    next
      case ExpiryTick
      with Some have "fire cfg i reply R = R \<lparr> hook := expiryTick (hook R) \<rparr>"
        by (simp add: fire_def)
      with inv show ?thesis by (simp add: progressInv_def expiryTick_frame)
    next
      case (PollTick r a)
      with Some have "hook (fire cfg i reply R) = snd (checkSessionStatus cfg r a reply (hook R))"
        by (simp add: fire_def split: prod.splits)
      with inv show ?thesis by (simp add: progressInv_def checkSessionStatus_frame timers_fire)
    qed
  qed
qed

lemma progressInv_callCleanup: "progressInv R \<Longrightarrow> progressInv (callCleanup i R)"
  by (simp add: progressInv_def callCleanup_def list_all_runCleanup
        split: option.splits Callback.splits)

lemma progressInv_callCreateSession:
  "progressInv R \<Longrightarrow> progressInv (callCreateSession cfg a reply R)"
  by (simp add: progressInv_def callCreateSession_def createSession_def Let_def setInterval_def
        tickBounded_def split: Reply.splits option.splits)

lemma progressInv_reset: "progressInv R \<Longrightarrow> progressInv (R \<lparr> hook := resetSession (hook R) \<rparr>)"
  by (simp add: progressInv_def resetSession_def)

lemma progressInv_step: "progressInv R \<Longrightarrow> progressInv (step cfg R ev)"
  unfolding step_def
  by (cases ev)
     (simp_all add: progressInv_settle progressInv_fire progressInv_callCleanup
        progressInv_callCreateSession progressInv_reset)

lemma progressInv_mount: "progressInv mount"
  by (simp add: mount_eq progressInv_def initialState_def noTimers_def)

lemma progressInv_run: "progressInv (run cfg evs)"
  by (induction evs rule: rev_induct) (simp_all add: run_Nil run_snoc progressInv_mount progressInv_step)

text \<open>
  C8. In every state the hook reaches from mount, under any sequence of caller actions,
  interval ticks and server replies, \<^verbatim>\<open>progressPercentage\<close> lies between 0 and 100.
  \<^verbatim>\<open>getProgressFromStatus\<close> returns 20, 40, 60, 80, 100 for the five statuses and 0
  otherwise, and the progress written by the completion countdown is capped at 100
  whatever countdown its closure holds.
\<close>

theorem progress_within_0_100:
  "0 \<le> progressPercentage (hook (run cfg evs))
   \<and> progressPercentage (hook (run cfg evs)) \<le> 100
   \<and> getProgressFromStatus s \<in> {0, 20, 40, 60, 80, 100}
   \<and> getProgressFromStatus (Some ''DETECTED'') = 20
   \<and> getProgressFromStatus (Some ''PROCESSING'') = 40
   \<and> getProgressFromStatus (Some ''CONFIRMING'') = 60
   \<and> getProgressFromStatus (Some ''CONFIRMED'') = 80
   \<and> getProgressFromStatus (Some ''COMPLETED'') = 100
   \<and> getProgressFromStatus None = 0
   \<and> progressPercentage (completionTick c p) \<le> 100"
proof -
  have "getProgressFromStatus s \<in> {0, 20, 40, 60, 80, 100}"
    by (simp add: getProgressFromStatus_def)
  moreover have "progressPercentage (completionTick c p) \<le> 100"
    by (simp add: completionTick_def Let_def)
  ultimately show ?thesis
    using progressInv_run [of cfg evs] by (simp add: progressInv_def)
qed

section \<open>Reset\<close>

lemma render_no_status:
  "transactionStatus (hook R) = None \<Longrightarrow> hook (render R) = hook R"
  by (simp add: hook_render Let_def statusEffect_def)

lemma settle_no_status:
  "transactionStatus (hook R) = None \<Longrightarrow> hook (settle R) = hook R"
  by (simp add: settle_unfold render_no_status)

text \<open>
  C9. Whatever the state, \<^verbatim>\<open>resetSession\<close> leaves the eight values the hook returns
  at their initial values (\<^verbatim>\<open>sessionId\<close> null, \<^verbatim>\<open>currentSession\<close> null,
  \<^verbatim>\<open>showQR\<close> false, \<^verbatim>\<open>timeLeft\<close> 300, \<^verbatim>\<open>transactionStatus\<close> null,
  \<^verbatim>\<open>progressPercentage\<close> 0, \<^verbatim>\<open>isDepositCompleted\<close> false, \<^verbatim>\<open>error\<close> null),
  the renders that follow keep them there, and resetting twice is the same as resetting
  once. The internal \<^verbatim>\<open>completionCountdown\<close> is not among the cells it writes.
\<close>

theorem resetSession_initial_idempotent:
  "returned (resetSession p) = returned initialState
   \<and> sessionId (resetSession p) = None
   \<and> currentSession (resetSession p) = None
   \<and> showQR (resetSession p) = False
   \<and> timeLeft (resetSession p) = 300
   \<and> transactionStatus (resetSession p) = None
   \<and> progressPercentage (resetSession p) = 0
   \<and> isDepositCompleted (resetSession p) = False
   \<and> error (resetSession p) = None
   \<and> completionCountdown (resetSession p) = completionCountdown p
   \<and> resetSession (resetSession p) = resetSession p
   \<and> returned (hook (step cfg R CallResetSession)) = returned initialState"
proof -
  have "hook (step cfg R CallResetSession) = resetSession (hook R)"
    by (simp add: step_def settle_no_status resetSession_def)
  then show ?thesis
    by (simp add: resetSession_def returned_def initialState_def)
qed

section \<open>A failed creation\<close>

lemma createSession_Rejected:
  "createSession cfg r a (Rejected e) (p, T) =
     (POST (PROXY_URL cfg @ ''/deposit-sessions'')
        [(''userAddress'', a), (''depositAddress'', DEPOSIT_ADDRESS cfg)],
      p \<lparr> error := Some (failureMessage e) \<rparr>, T, None)"
  by (simp add: createSession_def Let_def)

lemma quiescent_error_update:
  "quiescent R \<Longrightarrow> quiescent (R \<lparr> hook := (hook R) \<lparr> error := x \<rparr>, network := n \<rparr>)"
  by (simp add: quiescent_def statusDepsOf_def completionDepsOf_def expiryDepsOf_def)

text \<open>
  C5. When the POST is rejected, \<^verbatim>\<open>createSession\<close> returns no cleanup, starts no
  interval, and writes only \<^verbatim>\<open>error\<close>: the server's \<^verbatim>\<open>response.data.error\<close> when
  the thrown value has a response with a non-empty error string, and
  "Failed to create deposit session" otherwise. The other cells keep their values, also
  after the renders that follow in a run of the hook.
\<close>

theorem createSession_rejected_sets_only_error:
  "(case createSession cfg r a (Rejected e) (p, T) of
      (request, p', T', cleanup) \<Rightarrow>
        cleanup = None \<and> T' = T
        \<and> error p' = Some (failureMessage e)
        \<and> sessionId p' = sessionId p \<and> currentSession p' = currentSession p
        \<and> showQR p' = showQR p \<and> timeLeft p' = timeLeft p
        \<and> transactionStatus p' = transactionStatus p
        \<and> progressPercentage p' = progressPercentage p
        \<and> isDepositCompleted p' = isDepositCompleted p
        \<and> completionCountdown p' = completionCountdown p)
   \<and> failureMessage (WithResponse (Some (ch # msg))) = ch # msg
   \<and> failureMessage (WithResponse (Some [])) = ''Failed to create deposit session''
   \<and> failureMessage (WithResponse None) = ''Failed to create deposit session''
   \<and> failureMessage NoResponse = ''Failed to create deposit session''
   \<and> hook (step cfg (run cfg evs) (CallCreateSession a (Rejected e)))
       = (hook (run cfg evs)) \<lparr> error := Some (failureMessage e) \<rparr>
   \<and> timers (step cfg (run cfg evs) (CallCreateSession a (Rejected e))) = timers (run cfg evs)"
proof -
  let ?R = "run cfg evs"
  let ?R' = "?R \<lparr> hook := (hook ?R) \<lparr> error := Some (failureMessage e) \<rparr>,
                  network := network ?R @ [(POST (PROXY_URL cfg @ ''/deposit-sessions'')
                     [(''userAddress'', a), (''depositAddress'', DEPOSIT_ADDRESS cfg)], Rejected e)] \<rparr>"
  have "callCreateSession cfg a (Rejected e) ?R = ?R'"
    by (simp add: callCreateSession_def createSession_Rejected)
  moreover have "quiescent ?R'"
    by (rule quiescent_error_update) (rule quiescent_run)
  ultimately have "step cfg ?R (CallCreateSession a (Rejected e)) = ?R'"
    by (simp add: step_def settle_quiescent)
  then show ?thesis
    by (simp add: createSession_Rejected failureMessage_def)
qed

section \<open>The countdown display\<close>



























section \<open>How the transaction status moves\<close>

lemma chainRank_simps [simp]:
  "chainRank None = 0"
  "chainRank (Some ''DETECTED'') = 1"
  "chainRank (Some ''PROCESSING'') = 2"
  "chainRank (Some ''CONFIRMING'') = 3"
  "chainRank (Some ''CONFIRMED'') = 4"
  "chainRank (Some ''COMPLETED'') = 5"
  by (simp_all add: chainRank_def)

lemma chainRank_le_5: "chainRank s \<le> 5"
  by (simp add: chainRank_def)

lemma render_status_cases:
  "transactionStatus (hook (render R)) = transactionStatus (hook R)
   \<or> (transactionStatus (hook R) = Some ''CONFIRMED''
       \<and> transactionStatus (hook (render R)) = Some ''COMPLETED'')"
  by (simp add: render_transactionStatus)

lemma settle_status_cases:
  "transactionStatus (hook (settle R)) = transactionStatus (hook R)
   \<or> (transactionStatus (hook R) = Some ''CONFIRMED''
       \<and> transactionStatus (hook (settle R)) = Some ''COMPLETED'')"
proof -
  have one: "transactionStatus (hook (render (render R))) = transactionStatus (hook R)
     \<or> (transactionStatus (hook R) = Some ''CONFIRMED''
         \<and> transactionStatus (hook (render (render R))) = Some ''COMPLETED'')"
    using render_status_cases [of R] render_status_cases [of "render R"] by auto
  show ?thesis
    using one render_status_cases [of R] by (simp add: settle_unfold)
qed

lemma settle_rank_mono:
  "chainRank (transactionStatus (hook R)) \<le> chainRank (transactionStatus (hook (settle R)))"
  using settle_status_cases [of R] by auto

lemma checkSessionStatus_status:
  "transactionStatus (snd (checkSessionStatus cfg r a reply p)) = transactionStatus p
   \<or> (\<exists>d. reply = Ok (Some d) \<and> fst (checkSessionStatus cfg r a reply p) \<noteq> []
           \<and> truthy (txStatus d)
           \<and> transactionStatus (snd (checkSessionStatus cfg r a reply p)) = txStatus d)"
  by (simp add: checkSessionStatus_def Let_def split: Reply.splits option.splits)

lemma fire_status:
  "transactionStatus (hook (fire cfg i reply R)) = transactionStatus (hook R)
   \<or> (\<exists>r a d. map_of (active (timers R)) i = Some (PollTick r a) \<and> reply = Ok (Some d)
              \<and> truthy (txStatus d)
              \<and> transactionStatus (hook (fire cfg i reply R)) = txStatus d)"
proof (cases "map_of (active (timers R)) i")
  case None
  then show ?thesis by (simp add: fire_def)
next
  case (Some cb)
  show ?thesis
  proof (cases cb)
    case (CompletionTick c)
    with Some show ?thesis by (simp add: fire_def completionTick_def Let_def)
  next
    case ExpiryTick
    with Some show ?thesis by (simp add: fire_def expiryTick_frame)
  next
    case (PollTick r a)
    with Some have "hook (fire cfg i reply R) = snd (checkSessionStatus cfg r a reply (hook R))"
      by (simp add: fire_def split: prod.splits)
    with Some PollTick checkSessionStatus_status [of cfg r a reply "hook R"]
    show ?thesis by auto
  qed
qed

text \<open>
  After the two calls of \<open>twoCreates\<close> the timer table holds the first poll interval
  (timer 0, closed over the initial state), the expiry interval (timer 1) and the second
  poll interval (timer 2, closed over a state that holds the session).
\<close>

lemma twoCreates_timers:
  "map fst (active (timers (run exampleConfig twoCreates))) = [0, 1, 2]
   \<and> map_of (active (timers (run exampleConfig twoCreates))) 0
       = Some (PollTick initialState ''0xA'')
   \<and> map_of (active (timers (run exampleConfig twoCreates))) 1 = Some ExpiryTick
   \<and> map_of (active (timers (run exampleConfig twoCreates))) 2
       = Some (PollTick (hook (run exampleConfig
           [CallCreateSession ''0xA'' (Ok (Some exampleSession))])) ''0xA'')
   \<and> sessionId (hook (run exampleConfig
           [CallCreateSession ''0xA'' (Ok (Some exampleSession))])) = Some ''s1''
   \<and> transactionStatus (hook (run exampleConfig
           [CallCreateSession ''0xA'' (Ok (Some exampleSession))])) = None"
  by code_simp

text \<open>
  C1 fails as stated, in both halves. With a poll interval whose guard passes, the client
  adopts whatever truthy \<^verbatim>\<open>txStatus\<close> the server reports. The status moves backwards:
  here the held status is PROCESSING and a reply reporting DETECTED moves it back to
  DETECTED. And the status takes a value outside the chain: a reply reporting FAILED makes
  the held status FAILED.
\<close>

theorem status_moves_backwards_counterexample:
  "transactionStatus (hook (run exampleConfig
       (twoCreates @ [Fire 2 (Ok (Some (withTx PROCESSING)))]))) = Some ''PROCESSING''
   \<and> transactionStatus (hook (run exampleConfig
       (twoCreates @ [Fire 2 (Ok (Some (withTx PROCESSING))),
                      Fire 2 (Ok (Some (withTx DETECTED)))]))) = Some ''DETECTED''
   \<and> chainRank (Some ''DETECTED'') < chainRank (Some ''PROCESSING'')
   \<and> transactionStatus (hook (run exampleConfig
       (twoCreates @ [Fire 2 (Ok (Some (exampleSession \<lparr> txStatus := Some ''FAILED'' \<rparr>)))])))
       = Some ''FAILED''
   \<and> Some ''FAILED''
       \<notin> Some ` statusName ` {DETECTED, PROCESSING, CONFIRMING, CONFIRMED, COMPLETED}"
  by code_simp

text \<open>
  C1, amended. In every run of the hook, when an interval fires (a poll tick, a tick of the
  completion countdown or of the expiry countdown) the status afterwards is not behind the
  status before along the chain, unless the tick is a poll whose reply carries a truthy
  \<^verbatim>\<open>txStatus\<close> and the status afterwards is that \<^verbatim>\<open>txStatus\<close>: the only backward
  moves are adoptions of what the server reported. The local countdown moves CONFIRMED to
  COMPLETED and nothing else. Nothing is said about which values the status takes: the
  hook checks neither order nor membership of what it adopts.
\<close>

theorem status_forward_or_server_reported:
  "(chainRank (transactionStatus (hook (run cfg evs)))
         \<le> chainRank (transactionStatus (hook (step cfg (run cfg evs) (Fire i reply))))
       \<or> (\<exists>r a d. map_of (active (timers (run cfg evs))) i = Some (PollTick r a)
             \<and> reply = Ok (Some d) \<and> truthy (txStatus d)
             \<and> transactionStatus (hook (step cfg (run cfg evs) (Fire i reply))) = txStatus d))
   \<and> (transactionStatus (hook (settle R)) = transactionStatus (hook R)
       \<or> (transactionStatus (hook R) = Some ''CONFIRMED''
           \<and> transactionStatus (hook (settle R)) = Some ''COMPLETED''))"
proof -
  let ?R = "run cfg evs"
  let ?F = "fire cfg i reply ?R"
  let ?S = "step cfg ?R (Fire i reply)"
  have move: "chainRank (transactionStatus (hook ?R)) \<le> chainRank (transactionStatus (hook ?S))
       \<or> (\<exists>r a d. map_of (active (timers ?R)) i = Some (PollTick r a)
             \<and> reply = Ok (Some d) \<and> truthy (txStatus d)
             \<and> transactionStatus (hook ?S) = txStatus d)"
  proof (cases "transactionStatus (hook ?F) = transactionStatus (hook ?R)")
    case True
    then show ?thesis using settle_rank_mono [of ?F] by (simp add: step_def)
  next
    case False
    with fire_status [of cfg i reply ?R]
    obtain r a d where poll: "map_of (active (timers ?R)) i = Some (PollTick r a)"
      "reply = Ok (Some d)" "truthy (txStatus d)"
      "transactionStatus (hook ?F) = txStatus d"
      by auto
    from settle_status_cases [of ?F] show ?thesis
    proof
      assume "transactionStatus (hook (settle ?F)) = transactionStatus (hook ?F)"
      with poll show ?thesis by (simp add: step_def)
    next
      assume "transactionStatus (hook ?F) = Some ''CONFIRMED''
              \<and> transactionStatus (hook (settle ?F)) = Some ''COMPLETED''"
      then show ?thesis using chainRank_le_5 [of "transactionStatus (hook ?R)"] by (simp add: step_def)
    qed
  qed
  from move settle_status_cases [of R] show ?thesis by blast
qed

section \<open>Where a held status comes from\<close>

lemma statusOrigin_render: "statusOrigin R \<Longrightarrow> statusOrigin (render R)"
  using render_status_cases [of R] by (auto simp: statusOrigin_def)

lemma statusOrigin_settle: "statusOrigin R \<Longrightarrow> statusOrigin (settle R)"
  by (rule settle_preserves) (simp_all add: statusOrigin_render)

lemma network_fire:
  "network (fire cfg i reply R) = network R
   \<or> (\<exists>r a. map_of (active (timers R)) i = Some (PollTick r a)
         \<and> network (fire cfg i reply R)
             = network R @ [(GET (PROXY_URL cfg @ ''/deposit-sessions/user/'' @ a), reply)])"
  by (simp add: fire_def checkSessionStatus_def split: option.splits Callback.splits)

lemma polledStatuses_append:
  "polledStatuses (net @ [x]) = insert (polledStatus x) (polledStatuses net)"
  by (simp add: polledStatuses_def)

lemma fire_poll_adopts:
  assumes "transactionStatus (hook (fire cfg i reply R)) \<noteq> transactionStatus (hook R)"
  shows "transactionStatus (hook (fire cfg i reply R)) \<in> polledStatuses (network (fire cfg i reply R))"
proof -
  from assms fire_status [of cfg i reply R]
  obtain r a d where poll: "map_of (active (timers R)) i = Some (PollTick r a)"
    "reply = Ok (Some d)" "transactionStatus (hook (fire cfg i reply R)) = txStatus d"
    by auto
  have "fst (checkSessionStatus cfg r a reply (hook R)) \<noteq> []"
    using assms poll checkSessionStatus_status [of cfg r a reply "hook R"]
    by (auto simp: fire_def split: prod.splits)
  then have "network (fire cfg i reply R)
      = network R @ [(GET (PROXY_URL cfg @ ''/deposit-sessions/user/'' @ a), reply)]"
    using poll by (simp add: fire_def checkSessionStatus_def split: if_splits)
  with poll show ?thesis by (simp add: polledStatuses_append)
qed

lemma polledStatuses_fire_mono: "polledStatuses (network R) \<subseteq> polledStatuses (network (fire cfg i reply R))"
  using network_fire [of cfg i reply R] by (auto simp: polledStatuses_append)

lemma statusOrigin_fire: "statusOrigin R \<Longrightarrow> statusOrigin (fire cfg i reply R)"
proof (cases "transactionStatus (hook (fire cfg i reply R)) = transactionStatus (hook R)")
  case True
  assume "statusOrigin R"
  with True polledStatuses_fire_mono [of R cfg i reply] show ?thesis
    by (auto simp: statusOrigin_def)
next
  case False
  then show ?thesis using fire_poll_adopts [of cfg i reply R] by (simp add: statusOrigin_def)
qed

lemma statusOrigin_callCleanup: "statusOrigin R \<Longrightarrow> statusOrigin (callCleanup i R)"
  by (simp add: statusOrigin_def callCleanup_def split: option.splits Callback.splits)

lemma statusOrigin_callCreateSession:
  "statusOrigin R \<Longrightarrow> statusOrigin (callCreateSession cfg a reply R)"
  by (auto simp: statusOrigin_def callCreateSession_def createSession_def Let_def setInterval_def
        polledStatuses_append split: Reply.splits option.splits)

lemma statusOrigin_reset: "statusOrigin (R \<lparr> hook := resetSession (hook R) \<rparr>)"
  by (simp add: statusOrigin_def resetSession_def)

lemma statusOrigin_step: "statusOrigin R \<Longrightarrow> statusOrigin (step cfg R ev)"
  unfolding step_def
  by (cases ev)
     (simp_all add: statusOrigin_settle statusOrigin_fire statusOrigin_callCleanup
        statusOrigin_callCreateSession statusOrigin_reset)

lemma statusOrigin_run: "statusOrigin (run cfg evs)"
proof (induction evs rule: rev_induct)
  case Nil
  show ?case by (simp add: run_Nil mount_eq statusOrigin_def initialState_def)
next
  case (snoc ev evs)
  then show ?case by (simp add: run_snoc statusOrigin_step)
qed

lemma TxStatus_UNIV: "(UNIV :: TxStatus set) = {DETECTED, PROCESSING, CONFIRMING, CONFIRMED, COMPLETED}"
proof -
  have "x \<in> {DETECTED, PROCESSING, CONFIRMING, CONFIRMED, COMPLETED}" for x :: TxStatus
    by (cases x) simp_all
  then show ?thesis by blast
qed

text \<open>
  C2 fails as stated: a held status need not come from a polled reply. After one poll
  whose reply reports CONFIRMED, the completion effect of the same commit sets COMPLETED,
  although no reply ever carried COMPLETED.
\<close>

theorem status_not_polled_counterexample:
  "transactionStatus (hook (run exampleConfig
       (twoCreates @ [Fire 2 (Ok (Some (withTx CONFIRMED)))]))) = Some ''COMPLETED''
   \<and> Some ''COMPLETED'' \<notin> polledStatuses (network (run exampleConfig
       (twoCreates @ [Fire 2 (Ok (Some (withTx CONFIRMED)))])))"
  by code_simp

text \<open>
  C2, amended. There are exactly five non-null statuses, with five different names, the
  ones for which \<^verbatim>\<open>getProgressFromStatus\<close> and \<^verbatim>\<open>getStatusMessage\<close> have a case of
  their own (every other value takes the default branch). In every
  run of the hook, a non-null status the client holds is the \<^verbatim>\<open>txStatus\<close> of the reply
  to one of its polls, or it is COMPLETED, set locally by the completion countdown after a
  poll reported CONFIRMED.
\<close>

theorem status_polled_or_local_completion:
  "card (UNIV :: TxStatus set) = 5
   \<and> card (statusName ` UNIV) = 5
   \<and> {s. getProgressFromStatus s \<noteq> 0}
       = Some ` statusName ` {DETECTED, PROCESSING, CONFIRMING, CONFIRMED, COMPLETED}
   \<and> {s. getStatusMessage s \<noteq> ''Waiting for transaction...''}
       = Some ` statusName ` {DETECTED, PROCESSING, CONFIRMING, CONFIRMED, COMPLETED}
   \<and> (transactionStatus (hook (run cfg evs)) = None
       \<or> transactionStatus (hook (run cfg evs)) \<in> polledStatuses (network (run cfg evs))
       \<or> (transactionStatus (hook (run cfg evs)) = Some ''COMPLETED''
           \<and> Some ''CONFIRMED'' \<in> polledStatuses (network (run cfg evs))))"
proof -
  have c: "card (UNIV :: TxStatus set) = 5"
    by (simp add: TxStatus_UNIV)
  have n: "card (statusName ` UNIV) = 5"
    by (simp add: TxStatus_UNIV)
  have p: "{s. getProgressFromStatus s \<noteq> 0}
       = Some ` statusName ` {DETECTED, PROCESSING, CONFIRMING, CONFIRMED, COMPLETED}"
  proof -
    have "getProgressFromStatus s \<noteq> 0
        \<longleftrightarrow> s \<in> Some ` statusName ` {DETECTED, PROCESSING, CONFIRMING, CONFIRMED, COMPLETED}" for s
      by (simp add: getProgressFromStatus_def)
    then show ?thesis by blast
  qed
  have m: "{s. getStatusMessage s \<noteq> ''Waiting for transaction...''}
       = Some ` statusName ` {DETECTED, PROCESSING, CONFIRMING, CONFIRMED, COMPLETED}"
  proof -
    have "getStatusMessage s \<noteq> ''Waiting for transaction...''
        \<longleftrightarrow> s \<in> Some ` statusName ` {DETECTED, PROCESSING, CONFIRMING, CONFIRMED, COMPLETED}" for s
      by (simp add: getStatusMessage_def)
    then show ?thesis by blast
  qed
  from c n p m statusOrigin_run [of cfg evs] show ?thesis
    unfolding statusOrigin_def by blast
qed

section \<open>Timer identifiers\<close>

lemma nextId_clearInterval [simp]: "nextId (clearInterval k T) = nextId T"
  by (simp add: clearInterval_def)

lemma nextId_runCleanup [simp]: "nextId (runCleanup c T) = nextId T"
  by (cases c) (simp_all add: runCleanup_def)

lemma nextId_setInterval [simp]: "nextId (snd (setInterval cb T)) = Suc (nextId T)"
  by (simp add: setInterval_def)

lemma fst_setInterval [simp]: "fst (setInterval cb T) = nextId T"
  by (simp add: setInterval_def)

lemma map_of_filter_key:
  "map_of (filter (\<lambda>(j, cb). j \<noteq> k) xs) i = (if i = k then None else map_of xs i)"
  by (induction xs) auto

lemma map_of_clearInterval:
  "map_of (active (clearInterval k T)) i = (if i = k then None else map_of (active T) i)"
  by (simp add: clearInterval_def map_of_filter_key)

lemma map_of_setInterval_old:
  "i \<noteq> nextId T \<Longrightarrow> map_of (active (snd (setInterval cb T))) i = map_of (active T) i"
  by (simp add: setInterval_def map_add_def split: option.splits)

lemma idsFresh_not_active:
  "idsFresh T \<Longrightarrow> map_of (active T) (nextId T) = None"
proof -
  assume "idsFresh T"
  then have "nextId T \<notin> fst ` set (active T)"
    by (auto simp: idsFresh_def list_all_iff)
  then show ?thesis by (simp add: map_of_eq_None_iff)
qed

lemma map_of_setInterval_new:
  "idsFresh T \<Longrightarrow> map_of (active (snd (setInterval cb T))) (nextId T) = Some cb"
  using idsFresh_not_active [of T] by (simp add: setInterval_def map_add_def)

lemma distinct_map_fst_filter: "distinct (map fst xs) \<Longrightarrow> distinct (map fst (filter P xs))"
  by (induction xs) auto

lemma idsFresh_clearInterval: "idsFresh T \<Longrightarrow> idsFresh (clearInterval k T)"
  by (simp add: idsFresh_def clearInterval_def list_all_iff distinct_map_fst_filter)

lemma idsFresh_runCleanup: "idsFresh T \<Longrightarrow> idsFresh (runCleanup c T)"
  by (cases c) (simp_all add: runCleanup_def idsFresh_clearInterval)

lemma idsFresh_setInterval: "idsFresh T \<Longrightarrow> idsFresh (snd (setInterval cb T))"
  by (fastforce simp: idsFresh_def setInterval_def list_all_iff)

lemma idsFresh_render: "idsFresh (timers R) \<Longrightarrow> idsFresh (timers (render R))"
  by (simp add: timers_render Let_def idsFresh_runCleanup idsFresh_setInterval)

lemma timers_callCreateSession:
  "timers (callCreateSession cfg a reply R) =
     (case reply of Ok (Some d) \<Rightarrow> snd (setInterval (PollTick (hook R) a) (timers R))
      | _ \<Rightarrow> timers R)"
  by (simp add: callCreateSession_def createSession_def Let_def
        split: Reply.splits option.splits prod.splits)

lemma timers_callCleanup:
  "timers (callCleanup i R) = timers R \<or> timers (callCleanup i R) = clearInterval i (timers R)"
  by (simp add: callCleanup_def runCleanup_def split: option.splits Callback.splits)

text \<open>A property of the timer table alone carries over a step if every operation keeps it.\<close>

lemma timers_step_preserves:
  assumes "P (timers R)"
    and clear: "\<And>k T. P T \<Longrightarrow> P (clearInterval k T)"
    and add: "\<And>cb T. P T \<Longrightarrow> P (snd (setInterval cb T))"
  shows "P (timers (step cfg R ev))"
proof -
  have cleanup: "P (runCleanup c T)" if "P T" for c T
    using that clear by (cases c) (simp_all add: runCleanup_def)
  have rend: "P (timers (render R'))" if "P (timers R')" for R'
    using that by (simp add: timers_render Let_def cleanup add)
  have sett: "P (timers (settle R'))" if "P (timers R')" for R'
    using that rend by (simp add: settle_unfold)
  have "P (timers (case ev of
               CallCreateSession userAddr reply \<Rightarrow> callCreateSession cfg userAddr reply R
             | CallResetSession \<Rightarrow> R \<lparr> hook := resetSession (hook R) \<rparr>
             | CallCleanup i \<Rightarrow> callCleanup i R
             | Fire i reply \<Rightarrow> fire cfg i reply R))"
  proof (cases ev)
    case (CallCreateSession a reply)
    then show ?thesis
      using assms(1) add by (simp add: timers_callCreateSession split: Reply.splits option.splits)
  next
    case CallResetSession
    then show ?thesis using assms(1) by simp
  next
    case (CallCleanup i)
    then show ?thesis
      using assms(1) clear timers_callCleanup [of i R] by auto
  next
    case (Fire i reply)
    then show ?thesis using assms(1) by (simp add: timers_fire)
  qed
  then show ?thesis unfolding step_def by (rule sett)
qed

lemma idsFresh_step: "idsFresh (timers R) \<Longrightarrow> idsFresh (timers (step cfg R ev))"
  by (rule timers_step_preserves) (simp_all add: idsFresh_clearInterval idsFresh_setInterval)

lemma idsFresh_run: "idsFresh (timers (run cfg evs))"
proof (induction evs rule: rev_induct)
  case Nil
  show ?case by (simp add: run_Nil mount_eq idsFresh_def noTimers_def)
next
  case (snoc ev evs)
  then show ?case by (simp add: run_snoc idsFresh_step)
qed

lemma pinned_step: "pinned i cb (timers R) \<Longrightarrow> pinned i cb (timers (step cfg R ev))"
  by (rule timers_step_preserves)
     (auto simp: pinned_def map_of_clearInterval map_of_setInterval_old)

lemma pinned_steps: "pinned i cb (timers R) \<Longrightarrow> pinned i cb (timers (foldl (step cfg) R evs))"
  by (induction evs rule: rev_induct) (simp_all add: pinned_step)

section \<open>A created session and its polls\<close>

lemma createSession_request:
  "fst (createSession cfg r a reply (p, T)) =
     POST (PROXY_URL cfg @ ''/deposit-sessions'')
       [(''userAddress'', a), (''depositAddress'', DEPOSIT_ADDRESS cfg)]"
  by (simp add: createSession_def Let_def split: Reply.splits option.splits prod.splits)

lemma createSession_Ok:
  "createSession cfg r a (Ok (Some d)) (p, T) =
     (POST (PROXY_URL cfg @ ''/deposit-sessions'')
        [(''userAddress'', a), (''depositAddress'', DEPOSIT_ADDRESS cfg)],
      p \<lparr> sessionId := Some (sid d), currentSession := Some d, showQR := True,
          timeLeft := 300, transactionStatus := None, progressPercentage := 0,
          isDepositCompleted := False, error := None \<rparr>,
      snd (setInterval (PollTick r a) T), Some (nextId T))"
  by (simp add: createSession_def Let_def setInterval_def)

lemma map_of_render_kept:
  assumes "map_of (active (timers R)) i = Some (PollTick r a)" and "idsFresh (timers R)"
    and "completionCleanup R \<noteq> Some i" and "expiryCleanup R \<noteq> Some i"
  shows "map_of (active (timers (render R))) i = Some (PollTick r a)"
proof -
  from assms(1,2) have "i < nextId (timers R)"
    by (auto simp: idsFresh_def list_all_iff dest: map_of_SomeD)
  with assms show ?thesis
    by (auto simp: timers_render Let_def runCleanup_def map_of_clearInterval
          map_of_setInterval_old split: option.splits)
qed

section \<open>Every effect interval is the one its cleanup clears\<close>

lemma expiryReturnsEarly_deps: "expiryReturnsEarly r = expiryDepsIdle (expiryDepsOf r)"
  by (auto simp: expiryReturnsEarly_def expiryDepsIdle_def expiryDepsOf_def split: option.splits)

lemma map_of_setInterval:
  "idsFresh T \<Longrightarrow>
   map_of (active (snd (setInterval cb T))) = (map_of (active T))(nextId T \<mapsto> cb)"
proof
  fix i
  assume f: "idsFresh T"
  show "map_of (active (snd (setInterval cb T))) i = ((map_of (active T))(nextId T \<mapsto> cb)) i"
    using map_of_setInterval_new [OF f, of cb] map_of_setInterval_old [of i T cb]
    by (cases "i = nextId T") simp_all
qed

lemma map_of_clearInterval_upd:
  "map_of (active (clearInterval k T)) = (map_of (active T))(k := None)"
  by (rule ext) (simp add: map_of_clearInterval)

lemma map_of_runCleanup:
  "map_of (active (runCleanup c T)) =
     (case c of None \<Rightarrow> map_of (active T) | Some k \<Rightarrow> (map_of (active T))(k := None))"
  by (cases c) (simp_all add: runCleanup_def map_of_clearInterval_upd)

lemma idsFresh_lookup: "idsFresh T \<Longrightarrow> map_of (active T) i = Some cb \<Longrightarrow> i < nextId T"
  by (auto simp: idsFresh_def list_all_iff dest: map_of_SomeD)

lemma completionCleanup_render:
  "completionCleanup (render R) =
     (if completionDeps R \<noteq> completionDepsOf (hook R)
      then (if completionCountdown (hook R) \<le> 0 then None else Some (nextId (timers R)))
      else completionCleanup R)"
  by (simp add: render_def Let_def completionEffect_def setInterval_def)

lemma expiryCleanup_render:
  "expiryCleanup (render R) =
     (if expiryDeps R \<noteq> expiryDepsOf (hook R)
      then (if expiryReturnsEarly (hook R) then None
            else Some (if completionDeps R \<noteq> completionDepsOf (hook R)
                          \<and> 0 < completionCountdown (hook R)
                       then Suc (nextId (timers R)) else nextId (timers R)))
      else expiryCleanup R)"
  by (simp add: render_def Let_def completionEffect_def expiryEffect_def setInterval_def)

lemma lookup_render:
  assumes "idsFresh (timers R)"
  shows "map_of (active (timers (render R))) =
     (let r = hook R; n = nextId (timers R);
          runC = (completionDeps R \<noteq> completionDepsOf r);
          runE = (expiryDeps R \<noteq> expiryDepsOf r);
          L0 = map_of (active (timers R));
          L1 = (if runC then (case completionCleanup R of None \<Rightarrow> L0 | Some k \<Rightarrow> L0(k := None))
                else L0);
          L2 = (if runE then (case expiryCleanup R of None \<Rightarrow> L1 | Some k \<Rightarrow> L1(k := None))
                else L1);
          L3 = (if runC \<and> 0 < completionCountdown r
                then L2(n \<mapsto> CompletionTick (completionCountdown r)) else L2)
      in if runE \<and> \<not> expiryReturnsEarly r
         then L3((if runC \<and> 0 < completionCountdown r then Suc n else n) \<mapsto> ExpiryTick)
         else L3)"
  using assms
  by (simp add: timers_render Let_def map_of_setInterval map_of_runCleanup idsFresh_runCleanup
        idsFresh_setInterval split: option.splits)

lemma owned_render:
  assumes o: "owned R"
  shows "owned (render R)"
proof -
  let ?n = "nextId (timers R)"
  let ?L = "map_of (active (timers R))"
  from o have fresh: "idsFresh (timers R)" by (simp add: owned_def)
  have below: "i < ?n" if "?L i = Some cb" for i cb
    using fresh that by (rule idsFresh_lookup)
  have n: "?L ?n = None"
    using below [of ?n] by (cases "?L ?n") auto
  have sn: "?L (Suc ?n) = None"
    using below [of "Suc ?n"] by (cases "?L (Suc ?n)") auto
  from o have own: "ownedTimer R i" for i by (simp add: owned_def)
  from o have cC: "case completionCleanup R of
            None \<Rightarrow> fst (completionDeps R) \<le> 0
          | Some i \<Rightarrow> 0 < fst (completionDeps R)
              \<and> ?L i = Some (CompletionTick (fst (completionDeps R)))"
    by (simp add: owned_def)
  from o have cE: "case expiryCleanup R of
            None \<Rightarrow> expiryDepsIdle (expiryDeps R)
          | Some i \<Rightarrow> \<not> expiryDepsIdle (expiryDeps R) \<and> ?L i = Some ExpiryTick"
    by (simp add: owned_def)
  have cCn: "completionCleanup R \<noteq> Some ?n" "completionCleanup R \<noteq> Some (Suc ?n)"
    using cC n sn by (auto split: option.splits)
  have cEn: "expiryCleanup R \<noteq> Some ?n" "expiryCleanup R \<noteq> Some (Suc ?n)"
    using cE n sn by (auto split: option.splits)
  have cCE: "completionCleanup R = Some k \<Longrightarrow> expiryCleanup R \<noteq> Some k" for k
    using cC cE by (auto split: option.splits)
  have A: "idsFresh (timers (render R))"
    using fresh by (rule idsFresh_render)
  have B: "ownedTimer (render R) i" for i
    using own [of i] n sn cC cE cCn cEn cCE
    by (cases "completionDeps R = completionDepsOf (hook R)";
        cases "expiryDeps R = expiryDepsOf (hook R)";
        cases "0 < completionCountdown (hook R)"; cases "expiryReturnsEarly (hook R)")
       (auto simp: ownedTimer_def lookup_render [OF fresh] Let_def completionCleanup_render
          expiryCleanup_render completionDepsOf_def
          split: option.splits Callback.splits)
  have C: "case completionCleanup (render R) of
            None \<Rightarrow> fst (completionDeps (render R)) \<le> 0
          | Some i \<Rightarrow> 0 < fst (completionDeps (render R))
              \<and> map_of (active (timers (render R))) i
                  = Some (CompletionTick (fst (completionDeps (render R))))"
    using n sn cC cE cCn cEn cCE
    by (cases "completionDeps R = completionDepsOf (hook R)";
        cases "expiryDeps R = expiryDepsOf (hook R)";
        cases "0 < completionCountdown (hook R)"; cases "expiryReturnsEarly (hook R)")
       (auto simp: lookup_render [OF fresh] Let_def completionCleanup_render
          completionDepsOf_def split: option.splits)
  have D: "case expiryCleanup (render R) of
            None \<Rightarrow> expiryDepsIdle (expiryDeps (render R))
          | Some i \<Rightarrow> \<not> expiryDepsIdle (expiryDeps (render R))
              \<and> map_of (active (timers (render R))) i = Some ExpiryTick"
    using n sn cC cE cCn cEn cCE
    by (cases "completionDeps R = completionDepsOf (hook R)";
        cases "expiryDeps R = expiryDepsOf (hook R)";
        cases "0 < completionCountdown (hook R)"; cases "expiryReturnsEarly (hook R)")
       (auto simp: lookup_render [OF fresh] Let_def expiryCleanup_render
          expiryReturnsEarly_deps split: option.splits)
  from A B C D show ?thesis by (simp add: owned_def)
qed

lemma owned_settle: "owned R \<Longrightarrow> owned (settle R)"
  by (rule settle_preserves) (simp_all add: owned_render)

lemma owned_hook_network:
  "owned R \<Longrightarrow> owned (R \<lparr> hook := p, network := n \<rparr>)"
  by (simp add: owned_def ownedTimer_def cong: option.case_cong Callback.case_cong)

lemma owned_hook: "owned R \<Longrightarrow> owned (R \<lparr> hook := p \<rparr>)"
  by (simp add: owned_def ownedTimer_def cong: option.case_cong Callback.case_cong)

lemma fire_shape: "\<exists>p n. fire cfg i reply R = R \<lparr> hook := p, network := n \<rparr>"
proof (cases "map_of (active (timers R)) i")
  case None
  then have "fire cfg i reply R = R \<lparr> hook := hook R, network := network R \<rparr>"
    by (simp add: fire_def)
  then show ?thesis by blast
next
  case (Some cb)
  show ?thesis
  proof (cases cb)
    case (CompletionTick c)
    with Some have "fire cfg i reply R
        = R \<lparr> hook := completionTick c (hook R), network := network R \<rparr>"
      by (simp add: fire_def)
    then show ?thesis by blast
  next
    case ExpiryTick
    with Some have "fire cfg i reply R = R \<lparr> hook := expiryTick (hook R), network := network R \<rparr>"
      by (simp add: fire_def)
    then show ?thesis by blast
  next
    case (PollTick r a)
    with Some have "fire cfg i reply R
        = R \<lparr> hook := snd (checkSessionStatus cfg r a reply (hook R)),
              network := network R @ map (\<lambda>q. (q, reply))
                 (fst (checkSessionStatus cfg r a reply (hook R))) \<rparr>"
      by (simp add: fire_def split: prod.splits)
    then show ?thesis by blast
  qed
qed

lemma owned_fire: "owned R \<Longrightarrow> owned (fire cfg i reply R)"
  using fire_shape [of cfg i reply R] by (auto simp: owned_hook_network)

lemma owned_callCleanup:
  assumes o: "owned R"
  shows "owned (callCleanup i R)"
proof (cases "\<exists>r a. map_of (active (timers R)) i = Some (PollTick r a)")
  case False
  then have "callCleanup i R = R"
    by (auto simp: callCleanup_def split: option.splits Callback.splits)
  with o show ?thesis by simp
next
  case True
  then obtain r a where poll: "map_of (active (timers R)) i = Some (PollTick r a)" by blast
  then have eq: "callCleanup i R = R \<lparr> timers := clearInterval i (timers R) \<rparr>"
    by (simp add: callCleanup_def runCleanup_def)
  from o have own: "ownedTimer R j" for j by (simp add: owned_def)
  have "ownedTimer (R \<lparr> timers := clearInterval i (timers R) \<rparr>) j" for j
    using own [of j]
    by (simp add: ownedTimer_def map_of_clearInterval cong: option.case_cong Callback.case_cong)
  with o poll show ?thesis
    unfolding eq
    by (auto simp: owned_def idsFresh_clearInterval map_of_clearInterval split: option.splits)
qed

lemma owned_callCreateSession:
  assumes o: "owned R"
  shows "owned (callCreateSession cfg a reply R)"
proof (cases "\<exists>d. reply = Ok (Some d)")
  case False
  then have "\<exists>p n. callCreateSession cfg a reply R = R \<lparr> hook := p, network := n \<rparr>"
    by (cases reply) (auto simp: callCreateSession_def createSession_def Let_def
          split: option.splits)
  with o show ?thesis by (auto simp: owned_hook_network)
next
  case True
  then obtain d where d: "reply = Ok (Some d)" by blast
  let ?T = "snd (setInterval (PollTick (hook R) a) (timers R))"
  from o have fresh: "idsFresh (timers R)" by (simp add: owned_def)
  obtain p n where eq: "callCreateSession cfg a reply R
      = R \<lparr> hook := p, timers := ?T, network := n \<rparr>"
    by (simp add: d callCreateSession_def createSession_Ok)
  have none: "map_of (active (timers R)) (nextId (timers R)) = None"
    using fresh by (rule idsFresh_not_active)
  from o have own: "ownedTimer R j" for j by (simp add: owned_def)
  have "ownedTimer (R \<lparr> hook := p, timers := ?T, network := n \<rparr>) j" for j
    using own [of j] none
    by (cases "j = nextId (timers R)")
       (simp_all add: ownedTimer_def map_of_setInterval [OF fresh]
          cong: option.case_cong Callback.case_cong)
  with o none show ?thesis
    unfolding eq
    by (auto simp: owned_def idsFresh_setInterval map_of_setInterval [OF fresh]
          split: option.splits)
qed

lemma owned_step: "owned R \<Longrightarrow> owned (step cfg R ev)"
  unfolding step_def
  by (cases ev)
     (simp_all add: owned_settle owned_fire owned_callCleanup owned_callCreateSession owned_hook)

lemma owned_run: "owned (run cfg evs)"
proof (induction evs rule: rev_induct)
  case Nil
  show ?case
    by (simp add: run_Nil mount_eq owned_def ownedTimer_def idsFresh_def noTimers_def
          expiryDepsIdle_def)
next
  case (snoc ev evs)
  then show ?case by (simp add: run_snoc owned_step)
qed

lemma settle_frame [simp]:
  "showQR (hook (settle R)) = showQR (hook R)"
  "currentSession (hook (settle R)) = currentSession (hook R)"
  "timeLeft (hook (settle R)) = timeLeft (hook R)"
  "sessionId (hook (settle R)) = sessionId (hook R)"
  "isDepositCompleted (hook (settle R)) = isDepositCompleted (hook R)"
  "error (hook (settle R)) = error (hook R)"
  "network (settle R) = network R"
  by (simp_all add: settle_unfold)

lemma poll_timer_kept_render:
  assumes "owned R" and "map_of (active (timers R)) i = Some (PollTick r a)"
  shows "map_of (active (timers (render R))) i = Some (PollTick r a)"
proof (rule map_of_render_kept [OF assms(2)])
  from assms(1) show "idsFresh (timers R)" by (simp add: owned_def)
  from assms show "completionCleanup R \<noteq> Some i"
    by (auto simp: owned_def split: option.splits)
  from assms show "expiryCleanup R \<noteq> Some i"
    by (auto simp: owned_def split: option.splits)
qed

lemma poll_timer_kept_settle:
  assumes "owned R" and "map_of (active (timers R)) i = Some (PollTick r a)"
  shows "map_of (active (timers (settle R))) i = Some (PollTick r a)"
  using assms poll_timer_kept_render [OF assms]
    poll_timer_kept_render [OF owned_render [OF assms(1)], of i r a]
  by (simp add: settle_unfold)

section \<open>The expiry countdown\<close>

lemma expiryTick_timeLeft:
  "timeLeft (expiryTick p) = (if timeLeft p - 1 \<le> 0 then 0 else timeLeft p - 1)"
  by (simp add: expiryTick_def Let_def)

lemma timeLeftInv_fire: "timeLeftInv R \<Longrightarrow> timeLeftInv (fire cfg i reply R)"
proof (cases "map_of (active (timers R)) i")
  case None
  assume "timeLeftInv R"
  with None show ?thesis by (simp add: fire_def)
next
  case (Some cb)
  assume inv: "timeLeftInv R"
  show ?thesis
  proof (cases cb)
    case (CompletionTick c)
    with Some inv show ?thesis by (simp add: fire_def timeLeftInv_def completionTick_def Let_def)
  next
    case ExpiryTick
    with Some inv show ?thesis by (simp add: fire_def timeLeftInv_def expiryTick_timeLeft)
  next
    case (PollTick r a)
    with Some have "hook (fire cfg i reply R) = snd (checkSessionStatus cfg r a reply (hook R))"
      by (simp add: fire_def split: prod.splits)
    with inv show ?thesis by (simp add: timeLeftInv_def checkSessionStatus_frame)
  qed
qed

lemma timeLeftInv_step: "timeLeftInv R \<Longrightarrow> timeLeftInv (step cfg R ev)"
proof (cases ev)
  case (CallCreateSession a reply)
  assume "timeLeftInv R"
  with CallCreateSession show ?thesis
    by (cases reply)
       (auto simp: step_def timeLeftInv_def callCreateSession_def createSession_def Let_def
          setInterval_def split: option.splits)
next
  case CallResetSession
  then show ?thesis by (simp add: step_def timeLeftInv_def resetSession_def)
next
  case (CallCleanup i)
  assume "timeLeftInv R"
  with CallCleanup show ?thesis
    by (simp add: step_def timeLeftInv_def callCleanup_def split: option.splits Callback.splits)
next
  case (Fire i reply)
  assume "timeLeftInv R"
  with Fire timeLeftInv_fire [of R cfg i reply] show ?thesis
    by (simp add: step_def timeLeftInv_def)
qed

lemma timeLeftInv_run: "timeLeftInv (run cfg evs)"
proof (induction evs rule: rev_induct)
  case Nil
  show ?case by (simp add: run_Nil mount_eq timeLeftInv_def initialState_def)
next
  case (snoc ev evs)
  then show ?case by (simp add: run_snoc timeLeftInv_step)
qed

lemma expiry_interval_iff:
  "(\<exists>i. map_of (active (timers (run cfg evs))) i = Some ExpiryTick)
     \<longleftrightarrow> \<not> expiryReturnsEarly (hook (run cfg evs))"
proof -
  let ?R = "run cfg evs"
  have o: "owned ?R" by (rule owned_run)
  have "quiescent ?R" by (rule quiescent_run)
  then have deps: "expiryDeps ?R = expiryDepsOf (hook ?R)" by (simp add: quiescent_def)
  from o have cE: "case expiryCleanup ?R of
            None \<Rightarrow> expiryDepsIdle (expiryDeps ?R)
          | Some i \<Rightarrow> \<not> expiryDepsIdle (expiryDeps ?R)
              \<and> map_of (active (timers ?R)) i = Some ExpiryTick"
    by (simp add: owned_def)
  from o have own: "ownedTimer ?R i" for i by (simp add: owned_def)
  show ?thesis
  proof
    assume "\<exists>i. map_of (active (timers ?R)) i = Some ExpiryTick"
    then obtain i where "map_of (active (timers ?R)) i = Some ExpiryTick" by blast
    with own [of i] have "expiryCleanup ?R = Some i" by (simp add: ownedTimer_def)
    with cE show "\<not> expiryReturnsEarly (hook ?R)"
      by (simp add: expiryReturnsEarly_deps deps)
  next
    assume "\<not> expiryReturnsEarly (hook ?R)"
    with cE show "\<exists>i. map_of (active (timers ?R)) i = Some ExpiryTick"
      by (cases "expiryCleanup ?R") (auto simp: expiryReturnsEarly_deps deps)
  qed
qed

lemma expiryReturnsEarly_iff:
  "\<not> expiryReturnsEarly r
     \<longleftrightarrow> showQR r \<and> (\<exists>d. currentSession r = Some d \<and> status d = ''PENDING'') \<and> 0 < timeLeft r"
  by (auto simp: expiryReturnsEarly_def split: option.splits)

text \<open>
  C3. In every state the hook reaches, an expiry interval is active exactly when the QR
  is shown, a session is held whose status is PENDING, and \<^verbatim>\<open>timeLeft\<close> is positive.
  When that interval ticks, \<^verbatim>\<open>timeLeft\<close> goes down by exactly one and is not negative;
  from 1 it reaches 0, the QR is hidden and the session's status becomes EXPIRED;
  otherwise the QR and the session are untouched. \<^verbatim>\<open>timeLeft\<close> is never negative in
  any reachable state nor after any tick, and the updater maps a null session to null.
\<close>

theorem expiry_countdown:
  assumes "map_of (active (timers (run cfg evs))) i = Some ExpiryTick"
  shows "timeLeft (hook (step cfg (run cfg evs) (Fire i reply))) = timeLeft (hook (run cfg evs)) - 1
    \<and> 0 \<le> timeLeft (hook (step cfg (run cfg evs) (Fire i reply)))
    \<and> (if timeLeft (hook (run cfg evs)) = 1
        then \<not> showQR (hook (step cfg (run cfg evs) (Fire i reply)))
          \<and> currentSession (hook (step cfg (run cfg evs) (Fire i reply)))
              = map_option (\<lambda>d. d \<lparr> status := ''EXPIRED'' \<rparr>) (currentSession (hook (run cfg evs)))
        else showQR (hook (step cfg (run cfg evs) (Fire i reply)))
          \<and> currentSession (hook (step cfg (run cfg evs) (Fire i reply)))
              = currentSession (hook (run cfg evs)))
    \<and> ((\<exists>j. map_of (active (timers (run cfg evs'))) j = Some ExpiryTick)
         \<longleftrightarrow> showQR (hook (run cfg evs'))
             \<and> (\<exists>d. currentSession (hook (run cfg evs')) = Some d \<and> status d = ''PENDING'')
             \<and> 0 < timeLeft (hook (run cfg evs')))
    \<and> 0 \<le> timeLeft (hook (run cfg evs'))
    \<and> 0 \<le> timeLeft (expiryTick p)
    \<and> currentSession (expiryTick (p \<lparr> currentSession := None \<rparr>)) = None"
proof -
  let ?R = "run cfg evs"
  from assms expiry_interval_iff [of cfg evs] have "\<not> expiryReturnsEarly (hook ?R)"
    by blast
  then have g: "showQR (hook ?R)" "0 < timeLeft (hook ?R)"
    by (simp_all add: expiryReturnsEarly_iff)
  from assms have h: "hook (step cfg ?R (Fire i reply)) = hook (settle (?R \<lparr> hook := expiryTick (hook ?R) \<rparr>))"
    by (simp add: step_def fire_def)
  have tick: "timeLeft (hook (step cfg ?R (Fire i reply))) = timeLeft (hook ?R) - 1"
    "0 \<le> timeLeft (hook (step cfg ?R (Fire i reply)))"
    using g by (simp_all add: h expiryTick_timeLeft)
  have eff: "if timeLeft (hook ?R) = 1
        then \<not> showQR (hook (step cfg ?R (Fire i reply)))
          \<and> currentSession (hook (step cfg ?R (Fire i reply)))
              = map_option (\<lambda>d. d \<lparr> status := ''EXPIRED'' \<rparr>) (currentSession (hook ?R))
        else showQR (hook (step cfg ?R (Fire i reply)))
          \<and> currentSession (hook (step cfg ?R (Fire i reply))) = currentSession (hook ?R)"
    using g by (auto simp: h expiryTick_def Let_def split: option.splits)
  have iff: "(\<exists>j. map_of (active (timers (run cfg evs'))) j = Some ExpiryTick)
         \<longleftrightarrow> showQR (hook (run cfg evs'))
             \<and> (\<exists>d. currentSession (hook (run cfg evs')) = Some d \<and> status d = ''PENDING'')
             \<and> 0 < timeLeft (hook (run cfg evs'))"
    using expiry_interval_iff [of cfg evs'] by (simp add: expiryReturnsEarly_iff)
  have nn: "0 \<le> timeLeft (hook (run cfg evs'))"
    using timeLeftInv_run [of cfg evs'] by (simp add: timeLeftInv_def)
  have f: "0 \<le> timeLeft (expiryTick p)"
    by (simp add: expiryTick_timeLeft)
  have nul: "currentSession (expiryTick (p \<lparr> currentSession := None \<rparr>)) = None"
    by (simp add: expiryTick_def Let_def)
  from tick eff iff nn f nul show ?thesis by blast
qed

theorem expiry_countdown_witness:
  "map_of (active (timers (run exampleConfig
       [CallCreateSession ''0xA'' (Ok (Some exampleSession))]))) 1 = Some ExpiryTick
   \<and> timeLeft (hook (run exampleConfig [CallCreateSession ''0xA'' (Ok (Some exampleSession))])) = 300
   \<and> timeLeft (hook (step exampleConfig
        (run exampleConfig [CallCreateSession ''0xA'' (Ok (Some exampleSession))])
        (Fire 1 (Ok None)))) = 299
   \<and> showQR (hook (step exampleConfig
        (run exampleConfig [CallCreateSession ''0xA'' (Ok (Some exampleSession))])
        (Fire 1 (Ok None))))"
proof -
  let ?evs = "[CallCreateSession ''0xA'' (Ok (Some exampleSession))]"
  have a: "map_of (active (timers (run exampleConfig ?evs))) 1 = Some ExpiryTick"
    by code_simp
  have b: "timeLeft (hook (run exampleConfig ?evs)) = 300"
    by code_simp
  from expiry_countdown [OF a, of "Ok None" "[]" initialState] a b show ?thesis
    by simp
qed

section \<open>Intervals and their cleanups\<close>








section \<open>The user address of a session\<close>

lemma callCreateSession_Ok:
  "callCreateSession cfg a (Ok (Some d)) R =
     R \<lparr> hook := (hook R) \<lparr> sessionId := Some (sid d), currentSession := Some d, showQR := True,
              timeLeft := 300, transactionStatus := None, progressPercentage := 0,
              isDepositCompleted := False, error := None \<rparr>,
         timers := snd (setInterval (PollTick (hook R) a) (timers R)),
         network := network R @ [(POST (PROXY_URL cfg @ ''/deposit-sessions'')
            [(''userAddress'', a), (''depositAddress'', DEPOSIT_ADDRESS cfg)], Ok (Some d))] \<rparr>"
  by (simp add: callCreateSession_def createSession_Ok)

lemma created_interval_pinned:
  "map_of (active (timers (step cfg (run cfg evs) (CallCreateSession a (Ok (Some d))))))
       (nextId (timers (run cfg evs))) = Some (PollTick (hook (run cfg evs)) a)
   \<and> pinned (nextId (timers (run cfg evs))) (PollTick (hook (run cfg evs)) a)
       (timers (foldl (step cfg)
          (step cfg (run cfg evs) (CallCreateSession a (Ok (Some d)))) later))"
proof -
  let ?R = "run cfg evs"
  let ?i = "nextId (timers ?R)"
  let ?C = "callCreateSession cfg a (Ok (Some d)) ?R"
  let ?R1 = "step cfg ?R (CallCreateSession a (Ok (Some d)))"
  let ?cb = "PollTick (hook ?R) a"
  have o: "owned ?R" by (rule owned_run)
  then have f: "idsFresh (timers ?R)" by (simp add: owned_def)
  have R1: "?R1 = settle ?C" by (simp add: step_def)
  have oC: "owned ?C" using o by (rule owned_callCreateSession)
  have "map_of (active (timers ?C)) ?i = Some ?cb"
    using f by (simp add: callCreateSession_Ok map_of_setInterval_new)
  with oC have timer: "map_of (active (timers ?R1)) ?i = Some ?cb"
    unfolding R1 by (rule poll_timer_kept_settle)
  have "?R1 = run cfg (evs @ [CallCreateSession a (Ok (Some d))])"
    by (simp add: run_snoc)
  then have "idsFresh (timers ?R1)" by (simp add: idsFresh_run)
  then have "?i < nextId (timers ?R1)" using timer by (rule idsFresh_lookup)
  with timer have "pinned ?i ?cb (timers ?R1)" by (simp add: pinned_def)
  then have "pinned ?i ?cb (timers (foldl (step cfg) ?R1 later))" by (rule pinned_steps)
  with timer show ?thesis by simp
qed

text \<open>
  C7 fails as stated: not every poll after a \<^verbatim>\<open>createSession(userAddress)\<close> queries by
  that address. The hook never clears the interval of an earlier call, so after sessions
  for 0xA the caller creates one for 0xB, and the next tick of the earlier interval
  (timer 2) still sends the GET for 0xA, while the hook holds the session of 0xB.
\<close>

theorem poll_other_address_counterexample:
  "currentSession (hook (run exampleConfig
       (twoCreates @ [CallCreateSession ''0xB'' (Ok (Some otherSession))]))) = Some otherSession
   \<and> sessionId (hook (run exampleConfig
       (twoCreates @ [CallCreateSession ''0xB'' (Ok (Some otherSession))]))) = Some ''s2''
   \<and> network (run exampleConfig
       (twoCreates @ [CallCreateSession ''0xB'' (Ok (Some otherSession)), Fire 2 (Ok None)]))
     = network (run exampleConfig
         (twoCreates @ [CallCreateSession ''0xB'' (Ok (Some otherSession))]))
       @ [(GET ''https://proxy/deposit-sessions/user/0xA'', Ok None)]
   \<and> ''0xA'' \<noteq> ''0xB''"
  by code_simp

text \<open>
  C7, amended. \<^verbatim>\<open>createSession(userAddress)\<close> posts exactly the fields
  \<^verbatim>\<open>userAddress\<close> (the argument) and \<^verbatim>\<open>depositAddress\<close> (the configured
  \<^verbatim>\<open>DEPOSIT_ADDRESS\<close>) to \<^verbatim>\<open>PROXY_URL/deposit-sessions\<close>;
  \<^verbatim>\<open>checkSessionStatus(userAddress)\<close> sends the GET of
  \<^verbatim>\<open>PROXY_URL/deposit-sessions/user/userAddress\<close> when its guard passes and nothing
  otherwise. When the server answers the POST with a session, that session and its
  \<^verbatim>\<open>_id\<close> are the current session and the session id afterwards, and the poll
  interval this call started is active and carries that same address. From then on,
  whatever happens, that interval is either cleared or unchanged, and a tick of it sends
  either nothing or the GET for that address: every poll of the interval started by this
  call that queries the backend queries it by the address of this call. Intervals of
  earlier calls keep their own addresses.
\<close>

theorem createSession_correlates_user_address:
  "fst (createSession cfg r a reply (p, T))
     = POST (PROXY_URL cfg @ ''/deposit-sessions'')
         [(''userAddress'', a), (''depositAddress'', DEPOSIT_ADDRESS cfg)]
   \<and> fst (checkSessionStatus cfg r a answer p)
       = (if \<not> truthy (sessionId r) \<or> currentSession r = None \<or> isDepositCompleted r
          then [] else [GET (PROXY_URL cfg @ ''/deposit-sessions/user/'' @ a)])
   \<and> network (step cfg (run cfg evs) (CallCreateSession a (Ok (Some d))))
       = network (run cfg evs) @ [(POST (PROXY_URL cfg @ ''/deposit-sessions'')
            [(''userAddress'', a), (''depositAddress'', DEPOSIT_ADDRESS cfg)], Ok (Some d))]
   \<and> currentSession (hook (step cfg (run cfg evs) (CallCreateSession a (Ok (Some d))))) = Some d
   \<and> sessionId (hook (step cfg (run cfg evs) (CallCreateSession a (Ok (Some d))))) = Some (sid d)
   \<and> map_of (active (timers (step cfg (run cfg evs) (CallCreateSession a (Ok (Some d))))))
        (nextId (timers (run cfg evs)))
       = Some (PollTick (hook (run cfg evs)) a)
   \<and> (map_of (active (timers (foldl (step cfg)
           (step cfg (run cfg evs) (CallCreateSession a (Ok (Some d)))) later)))
         (nextId (timers (run cfg evs))) = None
       \<or> map_of (active (timers (foldl (step cfg)
           (step cfg (run cfg evs) (CallCreateSession a (Ok (Some d)))) later)))
         (nextId (timers (run cfg evs))) = Some (PollTick (hook (run cfg evs)) a))
   \<and> (network (step cfg (foldl (step cfg)
           (step cfg (run cfg evs) (CallCreateSession a (Ok (Some d)))) later)
           (Fire (nextId (timers (run cfg evs))) answer))
        = network (foldl (step cfg)
           (step cfg (run cfg evs) (CallCreateSession a (Ok (Some d)))) later)
       \<or> network (step cfg (foldl (step cfg)
           (step cfg (run cfg evs) (CallCreateSession a (Ok (Some d)))) later)
           (Fire (nextId (timers (run cfg evs))) answer))
        = network (foldl (step cfg)
           (step cfg (run cfg evs) (CallCreateSession a (Ok (Some d)))) later)
          @ [(GET (PROXY_URL cfg @ ''/deposit-sessions/user/'' @ a), answer)])"
proof -
  let ?R = "run cfg evs"
  let ?i = "nextId (timers ?R)"
  let ?R1 = "step cfg ?R (CallCreateSession a (Ok (Some d)))"
  let ?R2 = "foldl (step cfg) ?R1 later"
  let ?cb = "PollTick (hook ?R) a"
  from created_interval_pinned [of cfg evs a d later]
  have timer: "map_of (active (timers ?R1)) ?i = Some ?cb"
    and later: "map_of (active (timers ?R2)) ?i = None
      \<or> map_of (active (timers ?R2)) ?i = Some ?cb"
    by (simp_all add: pinned_def)
  have R1: "?R1 = settle (callCreateSession cfg a (Ok (Some d)) ?R)" by (simp add: step_def)
  have net: "network ?R1 = network ?R @ [(POST (PROXY_URL cfg @ ''/deposit-sessions'')
            [(''userAddress'', a), (''depositAddress'', DEPOSIT_ADDRESS cfg)], Ok (Some d))]"
    by (simp add: R1 callCreateSession_Ok)
  have cur: "currentSession (hook ?R1) = Some d" "sessionId (hook ?R1) = Some (sid d)"
    by (simp_all add: R1 callCreateSession_Ok)
  have poll: "network (step cfg ?R2 (Fire ?i answer)) = network ?R2
      \<or> network (step cfg ?R2 (Fire ?i answer))
          = network ?R2 @ [(GET (PROXY_URL cfg @ ''/deposit-sessions/user/'' @ a), answer)]"
    using network_fire [of cfg ?i answer ?R2] later by (auto simp: step_def)
  have req: "fst (checkSessionStatus cfg r a answer p)
       = (if \<not> truthy (sessionId r) \<or> currentSession r = None \<or> isDepositCompleted r
          then [] else [GET (PROXY_URL cfg @ ''/deposit-sessions/user/'' @ a)])"
    by (simp add: checkSessionStatus_def)
  from createSession_request [of cfg r a reply p T] req net cur timer later poll
  show ?thesis by blast
qed

theorem createSession_correlates_user_address_witness:
  "truthy (sessionId (hook (run exampleConfig [CallCreateSession ''0xA'' (Ok (Some exampleSession))])))
   \<and> fst (checkSessionStatus exampleConfig
        (hook (run exampleConfig [CallCreateSession ''0xA'' (Ok (Some exampleSession))]))
        ''0xA'' (Ok None) initialState)
       = [GET ''https://proxy/deposit-sessions/user/0xA'']
   \<and> sessionId (hook (step exampleConfig (run exampleConfig [])
        (CallCreateSession ''0xA'' (Ok (Some exampleSession))))) = Some ''s1''
   \<and> map_of (active (timers (step exampleConfig (run exampleConfig [])
        (CallCreateSession ''0xA'' (Ok (Some exampleSession)))))) 0
       = Some (PollTick initialState ''0xA'')"
proof -
  let ?r = "hook (run exampleConfig [CallCreateSession ''0xA'' (Ok (Some exampleSession))])"
  have g: "truthy (sessionId ?r)" "currentSession ?r \<noteq> None" "\<not> isDepositCompleted ?r"
    by code_simp+
  have m: "nextId (timers (run exampleConfig [])) = 0" "hook (run exampleConfig []) = initialState"
    by (simp_all add: run_Nil mount_eq noTimers_def)
  from createSession_correlates_user_address [where cfg = exampleConfig and r = ?r
      and a = "''0xA''" and answer = "Ok None" and p = initialState and evs = "[]"
      and d = exampleSession and later = "[]"]
  show ?thesis
    using g m by (simp add: exampleConfig_def exampleSession_def)
qed

section \<open>Polling\<close>

lemma run_Cons: "foldl (step cfg) (step cfg mount ev) later = run cfg (ev # later)"
  by (simp add: run_def)

lemma checkSessionStatus_guard:
  "\<not> truthy (sessionId r) \<or> currentSession r = None \<or> isDepositCompleted r
   \<Longrightarrow> checkSessionStatus cfg r a reply p = ([], p)"
  by (simp add: checkSessionStatus_def)

lemma first_interval_never_polls:
  "step cfg (run cfg (CallCreateSession a (Ok (Some d)) # later)) (Fire 0 reply)
     = run cfg (CallCreateSession a (Ok (Some d)) # later)"
proof -
  let ?R2 = "run cfg (CallCreateSession a (Ok (Some d)) # later)"
  have m: "nextId (timers (run cfg [])) = 0" "hook (run cfg []) = initialState"
    by (simp_all add: run_Nil mount_eq noTimers_def)
  from created_interval_pinned [of cfg "[]" a d later]
  have "pinned 0 (PollTick initialState a) (timers ?R2)"
    by (simp add: m) (simp add: run_Nil run_Cons)
  then have "map_of (active (timers ?R2)) 0 = None
      \<or> map_of (active (timers ?R2)) 0 = Some (PollTick initialState a)"
    by (simp add: pinned_def)
  then have "fire cfg 0 reply ?R2 = ?R2"
    by (auto simp: fire_def checkSessionStatus_guard initialState_def truthy_def)
  then show ?thesis
    by (simp add: step_def settle_quiescent quiescent_run)
qed

text \<open>
  C4. The guard of \<^verbatim>\<open>checkSessionStatus\<close> reads the state of the render in which
  \<^verbatim>\<open>createSession\<close> was obtained, not the current one (lemma
  \<open>checkSessionStatus_guard\<close> is about that captured state). So the interval started by
  the first successful \<^verbatim>\<open>createSession\<close> of a mounted hook never sends a request
  and never changes the state, whatever happens later and whatever the server would
  reply, although right after the call the hook holds a session that is not completed.
  And for an interval created while a session was held, ticks keep sending the GET and
  writing the state after \<^verbatim>\<open>isDepositCompleted\<close> is set.
\<close>

theorem poll_interval_reads_captured_state:
  "step cfg (run cfg (CallCreateSession a (Ok (Some d)) # later)) (Fire 0 reply)
     = run cfg (CallCreateSession a (Ok (Some d)) # later)
   \<and> sessionId (hook (run exampleConfig [CallCreateSession ''0xA'' (Ok (Some exampleSession))]))
     = Some ''s1''
   \<and> currentSession (hook (run exampleConfig [CallCreateSession ''0xA'' (Ok (Some exampleSession))]))
     = Some exampleSession
   \<and> isDepositCompleted (hook (run exampleConfig [CallCreateSession ''0xA'' (Ok (Some exampleSession))]))
     = False
   \<and> map_of (active (timers (run exampleConfig
         [CallCreateSession ''0xA'' (Ok (Some exampleSession))]))) 0
     = Some (PollTick initialState ''0xA'')
   \<and> step exampleConfig (run exampleConfig [CallCreateSession ''0xA'' (Ok (Some exampleSession))])
         (Fire 0 reply)
     = run exampleConfig [CallCreateSession ''0xA'' (Ok (Some exampleSession))]
   \<and> isDepositCompleted (hook (run exampleConfig
         (twoCreates @ [Fire 2 (Ok (Some (withTx COMPLETED)))]))) = True
   \<and> network (run exampleConfig
         (twoCreates @ [Fire 2 (Ok (Some (withTx COMPLETED))), Fire 2 (Ok (Some exampleSession))]))
     = network (run exampleConfig (twoCreates @ [Fire 2 (Ok (Some (withTx COMPLETED)))]))
        @ [(GET ''https://proxy/deposit-sessions/user/0xA'', Ok (Some exampleSession))]
   \<and> currentSession (hook (run exampleConfig
         (twoCreates @ [Fire 2 (Ok (Some (withTx COMPLETED))), Fire 2 (Ok (Some exampleSession))])))
     = Some exampleSession"
proof -
  let ?R = "run exampleConfig [CallCreateSession ''0xA'' (Ok (Some exampleSession))]"
  have t: "map_of (active (timers ?R)) 0 = Some (PollTick initialState ''0xA'')"
    by code_simp
  have "fire exampleConfig 0 reply ?R = ?R"
    by (simp add: fire_def t checkSessionStatus_guard initialState_def truthy_def)
  then have s: "step exampleConfig ?R (Fire 0 reply) = ?R"
    by (simp add: step_def settle_quiescent quiescent_run)
  have a: "sessionId (hook ?R) = Some ''s1''" by code_simp
  have b: "currentSession (hook ?R) = Some exampleSession" by code_simp
  have c: "isDepositCompleted (hook ?R) = False" by code_simp
  have d: "isDepositCompleted (hook (run exampleConfig
         (twoCreates @ [Fire 2 (Ok (Some (withTx COMPLETED)))]))) = True"
    by code_simp
  have e: "network (run exampleConfig
         (twoCreates @ [Fire 2 (Ok (Some (withTx COMPLETED))), Fire 2 (Ok (Some exampleSession))]))
     = network (run exampleConfig (twoCreates @ [Fire 2 (Ok (Some (withTx COMPLETED)))]))
        @ [(GET ''https://proxy/deposit-sessions/user/0xA'', Ok (Some exampleSession))]"
    by code_simp
  have f: "currentSession (hook (run exampleConfig
         (twoCreates @ [Fire 2 (Ok (Some (withTx COMPLETED))), Fire 2 (Ok (Some exampleSession))])))
     = Some exampleSession"
    by code_simp
  from first_interval_never_polls [of cfg a d later reply] a b c t s d e f
  show ?thesis by simp
qed

end
